theory Spec2Isabelle
  imports Complex_Main
begin

section \<open>JavaScript numbers\<close>

text \<open>
  The source computes with JavaScript numbers. They are modelled as the exact reals
  extended by the three non-finite values of IEEE 754, with the arithmetic of the
  language on them (division by zero gives an infinity or NaN, NaN compares false with
  everything, \<open>Math.min\<close> and \<open>Math.max\<close> propagate NaN). Not modelled are the rounding
  of an arithmetic result to a double (a finite result is the exact real) and the sign of
  zero (there is one zero, which behaves as \<open>+0\<close>). The trail texture is a
  \<open>Float32Array\<close> that the source allocates itself, and a store into it rounds to
  single precision (\<open>toFloat32\<close> below). The arrays of the slot pool are made by the
  constructor \<open>StorageInstancedBufferAttribute\<close> of the three.js library, whose code
  is not part of the source; their element type is left open, and a store into them
  keeps the number as it is.
\<close>

datatype jsnum = Fin real | PInf | NInf | NaN

instantiation jsnum :: "{plus, minus, uminus, times, inverse, ord}"
begin

fun uminus_jsnum :: "jsnum \<Rightarrow> jsnum" where
  "- Fin a = Fin (- a)"
| "- PInf = NInf"
| "- NInf = PInf"
| "- NaN = NaN"

fun plus_jsnum :: "jsnum \<Rightarrow> jsnum \<Rightarrow> jsnum" where
  "Fin a + Fin b = Fin (a + b)"
| "NaN + _ = NaN"
| "_ + NaN = NaN"
| "PInf + NInf = NaN"
| "NInf + PInf = NaN"
| "PInf + _ = PInf"
| "_ + PInf = PInf"
| "NInf + _ = NInf"
| "_ + NInf = NInf"

definition minus_jsnum :: "jsnum \<Rightarrow> jsnum \<Rightarrow> jsnum" where
  "minus_jsnum a b = a + (- b)"

fun times_jsnum :: "jsnum \<Rightarrow> jsnum \<Rightarrow> jsnum" where
  "Fin a * Fin b = Fin (a * b)"
| "NaN * _ = NaN"
| "_ * NaN = NaN"
| "Fin a * PInf = (if a = 0 then NaN else if 0 < a then PInf else NInf)"
| "Fin a * NInf = (if a = 0 then NaN else if 0 < a then NInf else PInf)"
| "PInf * Fin b = (if b = 0 then NaN else if 0 < b then PInf else NInf)"
| "NInf * Fin b = (if b = 0 then NaN else if 0 < b then NInf else PInf)"
| "PInf * PInf = PInf"
| "PInf * NInf = NInf"
| "NInf * PInf = NInf"
| "NInf * NInf = PInf"

fun divide_jsnum :: "jsnum \<Rightarrow> jsnum \<Rightarrow> jsnum" where
  "divide_jsnum (Fin a) (Fin b) =
     (if b = 0 then (if a = 0 then NaN else if 0 < a then PInf else NInf)
      else Fin (a / b))"
| "divide_jsnum NaN _ = NaN"
| "divide_jsnum _ NaN = NaN"
| "divide_jsnum (Fin a) PInf = Fin 0"
| "divide_jsnum (Fin a) NInf = Fin 0"
| "divide_jsnum PInf (Fin b) = (if 0 \<le> b then PInf else NInf)"
| "divide_jsnum NInf (Fin b) = (if 0 \<le> b then NInf else PInf)"
| "divide_jsnum PInf PInf = NaN"
| "divide_jsnum PInf NInf = NaN"
| "divide_jsnum NInf PInf = NaN"
| "divide_jsnum NInf NInf = NaN"

definition inverse_jsnum :: "jsnum \<Rightarrow> jsnum" where
  "inverse_jsnum a = divide (Fin 1) a"

fun less_jsnum :: "jsnum \<Rightarrow> jsnum \<Rightarrow> bool" where
  "Fin a < Fin b = (a < b)"
| "NaN < _ = False"
| "_ < NaN = False"
| "_ < NInf = False"
| "PInf < _ = False"
| "NInf < _ = True"
| "_ < PInf = True"

definition less_eq_jsnum :: "jsnum \<Rightarrow> jsnum \<Rightarrow> bool" where
  "less_eq_jsnum a b = (a < b \<or> (a = b \<and> a \<noteq> NaN))"

instance ..

end

text \<open>
  \<open>a >= b\<close> of the source is \<open>b \<le> a\<close>, \<open>a > b\<close> is \<open>b < a\<close>; both are false when
  an operand is NaN, so \<open>\<not> a < b\<close> is not \<open>b \<le> a\<close>. \<open>a === b\<close> against the
  constants 0 and 1 is equality with \<open>Fin 0\<close> and \<open>Fin 1\<close>.
\<close>

definition Math_min :: "jsnum \<Rightarrow> jsnum \<Rightarrow> jsnum" where
  "Math_min a b = (if a = NaN \<or> b = NaN then NaN else if b < a then b else a)"

definition Math_max :: "jsnum \<Rightarrow> jsnum \<Rightarrow> jsnum" where
  "Math_max a b = (if a = NaN \<or> b = NaN then NaN else if a < b then b else a)"

subsection \<open>Single precision\<close>

text \<open>
  The conversion of a number to the nearest single-precision value, ties to the even
  significand, as a store into a \<open>Float32Array\<close> does it. The single-precision numbers
  around \<open>x\<close> are the multiples of 2 to the power \<open>exponent32 x\<close>: 24 significant bits
  in the binade of \<open>x\<close>, and the fixed spacing of 2 to the power -149 below the smallest
  normal number, 2 to the power -126. A result of magnitude 2 to the power 128 or more is
  an infinity.
\<close>

definition roundTiesToEven :: "real \<Rightarrow> int" where
  "roundTiesToEven y =
     (let n = \<lfloor>y\<rfloor>; r = y - of_int n
      in if r < 1 / 2 then n
         else if 1 / 2 < r then n + 1
         else if even n then n else n + 1)"

definition exponent32 :: "real \<Rightarrow> int" where
  "exponent32 x = (if \<bar>x\<bar> < 1 / 2 ^ 126 then - 149 else \<lfloor>log 2 \<bar>x\<bar>\<rfloor> - 23)"

definition ulp32 :: "real \<Rightarrow> real" where
  "ulp32 x = 2 powi exponent32 x"

fun toFloat32 :: "jsnum \<Rightarrow> jsnum" where
  "toFloat32 (Fin x) =
     (let y = ulp32 x * of_int (roundTiesToEven (x / ulp32 x))
      in if 2 ^ 128 \<le> \<bar>y\<bar> then (if 0 < x then PInf else NInf) else Fin y)"
| "toFloat32 v = v"

subsection \<open>Exceptions\<close>

datatype error = CanvasBoundsNotFound | TypeError

text \<open>
  The names of the properties that every plain object inherits from
  \<open>Object.prototype\<close>. A lookup \<open>obj[key]\<close> with one of them as \<open>key\<close> gives the
  inherited value (a function, or the prototype itself for \<open>__proto__\<close>) unless the
  object has a property of its own under that name; the value is truthy and has no
  property \<open>valuesBuffer\<close>.
\<close>

definition objectPrototypeKeys :: "string list" where
  "objectPrototypeKeys =
     [''constructor'', ''__defineGetter__'', ''__defineSetter__'', ''hasOwnProperty'',
      ''__lookupGetter__'', ''__lookupSetter__'', ''isPrototypeOf'',
      ''propertyIsEnumerable'', ''toString'', ''valueOf'', ''__proto__'',
      ''toLocaleString'']"

section \<open>Storage buffers (\<open>useStorageBuffers\<close>)\<close>

text \<open>
  A \<open>StorageInstancedBufferAttribute\<close> is its typed array and its \<open>needsUpdate\<close>
  flag. A write to a typed array at an index outside it is ignored by JavaScript, as
  \<open>xs[i := v]\<close> is by HOL. The two attributes of a \<open>ShaderBuffer\<close> are two objects, and
  so are the buffers under different keys: \<open>useStorageBuffers\<close> allocates each of them
  with \<open>new\<close>. The record keeps them apart in the same way (no array is shared between
  two fields). The \<open>active\<close> and \<open>values\<close> nodes are the GPU's view of the same two
  attributes and carry no state of their own.
\<close>

record bufferAttribute =
  array :: "jsnum list"
  needsUpdate :: bool

record shaderBuffer =
  activeBuffer :: bufferAttribute
  valuesBuffer :: bufferAttribute

definition StorageInstancedBufferAttribute :: "nat \<Rightarrow> bufferAttribute" where
  "StorageInstancedBufferAttribute count =
     \<lparr>array = replicate count (Fin 0), needsUpdate = False\<rparr>"

definition newShaderBuffer :: "nat \<Rightarrow> shaderBuffer" where
  "newShaderBuffer count =
     \<lparr>activeBuffer = StorageInstancedBufferAttribute count,
      valuesBuffer = StorageInstancedBufferAttribute count\<rparr>"

definition useStorageBuffers :: "string list \<Rightarrow> nat \<Rightarrow> (string \<rightharpoonup> shaderBuffer)" where
  "useStorageBuffers keys count =
     fold (\<lambda>key buffers. buffers(key \<mapsto> newShaderBuffer count)) keys Map.empty"

section \<open>The animation trigger (\<open>useStorageTrigger\<close>)\<close>

datatype easingType = Linear | EaseIn | EaseOut | EaseInOut | Spring

record springConfig =
  stiffness :: jsnum
  damping :: jsnum

text \<open>\<open>TriggerOptions\<close>: every field is optional; \<open>data\<close> is the list of the object's
  entries in the order \<open>Object.entries\<close> gives them.\<close>

record triggerOptions =
  opt_targetValue :: "jsnum option"
  opt_duration :: "jsnum option"
  opt_easing :: "easingType option"
  opt_springConfig :: "springConfig option"
  opt_data :: "(string \<times> jsnum) list option"

record animationState =
  startTime :: jsnum
  duration :: jsnum
  easing :: easingType
  targetValue :: jsnum

text \<open>
  An entry of the \<open>animationsRef\<close> map is an \<open>AnimationState\<close> object or the handle
  that Motion's \<open>animate\<close> returned. The frame loop tells them apart by
  \<open>'easing' in anim\<close>, which holds of the first and not of the handle; the handle is
  kept here with the arguments \<open>animate\<close> was called with (target, spring
  configuration).
\<close>

datatype animation = Eased animationState | SpringDriven jsnum springConfig

record triggerState =
  buffer :: shaderBuffer
  dataBuffers :: "(string \<rightharpoonup> shaderBuffer) option"
  animations :: "nat \<rightharpoonup> animation"
  console :: "string list"

definition useStorageTrigger ::
  "shaderBuffer \<Rightarrow> (string \<rightharpoonup> shaderBuffer) option \<Rightarrow> triggerState" where
  "useStorageTrigger buf dbs =
     \<lparr>buffer = buf, dataBuffers = dbs, animations = Map.empty, console = []\<rparr>"

text \<open>\<open>Array.prototype.findIndex\<close>: the first index whose element satisfies the
  predicate; \<open>None\<close> stands for the result \<open>-1\<close>.\<close>

fun findIndex :: "('a \<Rightarrow> bool) \<Rightarrow> 'a list \<Rightarrow> nat option" where
  "findIndex P [] = None"
| "findIndex P (x # xs) = (if P x then Some 0 else map_option Suc (findIndex P xs))"

definition orDefault :: "'a \<Rightarrow> 'a option \<Rightarrow> 'a" where
  "orDefault d v = (case v of None \<Rightarrow> d | Some x \<Rightarrow> x)"

text \<open>\<open>buffer.activeBuffer.array[i] = v; buffer.activeBuffer.needsUpdate = true\<close>, and
  the same for the values buffer.\<close>

definition setActive :: "nat \<Rightarrow> jsnum \<Rightarrow> triggerState \<Rightarrow> triggerState" where
  "setActive i v s =
     s\<lparr>buffer := (buffer s)\<lparr>activeBuffer :=
        \<lparr>array = (array (activeBuffer (buffer s)))[i := v], needsUpdate = True\<rparr>\<rparr>\<rparr>"

definition setValue :: "nat \<Rightarrow> jsnum \<Rightarrow> triggerState \<Rightarrow> triggerState" where
  "setValue i v s =
     s\<lparr>buffer := (buffer s)\<lparr>valuesBuffer :=
        \<lparr>array = (array (valuesBuffer (buffer s)))[i := v], needsUpdate = True\<rparr>\<rparr>\<rparr>"

text \<open>
  The \<open>forEach\<close> over \<open>Object.entries(data)\<close>, with the data buffers as it leaves them
  and the exception, if one is thrown. For a key with a data buffer the value is written.
  For a key with none, \<open>dataBuffers[key]\<close> is \<open>undefined\<close> and the entry is skipped,
  unless the key names an inherited property: then the test \<open>if (dataBuffers[key])\<close>
  passes, \<open>dataBuffers[key].valuesBuffer\<close> is \<open>undefined\<close> and reading its \<open>array\<close>
  throws a \<open>TypeError\<close>, which ends the loop with the earlier entries written.
\<close>

fun storeData ::
  "nat \<Rightarrow> (string \<times> jsnum) list \<Rightarrow> (string \<rightharpoonup> shaderBuffer)
     \<Rightarrow> (string \<rightharpoonup> shaderBuffer) \<times> error option" where
  "storeData idx [] dbs = (dbs, None)"
| "storeData idx ((key, v) # rest) dbs =
     (case dbs key of
        Some b \<Rightarrow>
          storeData idx rest
            (dbs(key \<mapsto> b\<lparr>valuesBuffer :=
               \<lparr>array = (array (valuesBuffer b))[idx := v], needsUpdate = True\<rparr>\<rparr>))
      | None \<Rightarrow>
          if key \<in> set objectPrototypeKeys then (dbs, Some TypeError)
          else storeData idx rest dbs)"

text \<open>The spring's \<open>onComplete\<close> callback, closed over the slot index.\<close>

definition onComplete :: "nat \<Rightarrow> triggerState \<Rightarrow> triggerState" where
  "onComplete idx s =
     (let s1 = setActive idx (Fin 0) s;
          s2 = setValue idx (Fin 0) s1
      in s2\<lparr>animations := (animations s2)(idx := None)\<rparr>)"

text \<open>The spring's \<open>onUpdate\<close> callback, closed over the slot index.\<close>

definition onUpdate :: "nat \<Rightarrow> jsnum \<Rightarrow> triggerState \<Rightarrow> triggerState" where
  "onUpdate idx v s = setValue idx v s"

text \<open>
  A call of \<open>trigger\<close>: the pool as the call leaves it and the exception, if it
  throws. The only statement that can throw is the payload loop; it runs after the slot
  is marked active and before the animation is registered.
\<close>

definition triggerCall :: "triggerOptions \<Rightarrow> triggerState \<Rightarrow> triggerState \<times> error option" where
  "triggerCall options s =
     (let targetValue = orDefault (Fin 1) (opt_targetValue options);
          duration = orDefault (Fin 2.5) (opt_duration options);
          easing = orDefault Linear (opt_easing options);
          springConfig =
            orDefault \<lparr>stiffness = Fin 100, damping = Fin 10\<rparr> (opt_springConfig options);
          data = orDefault [] (opt_data options)
      in case findIndex (\<lambda>v. v = Fin 0) (array (activeBuffer (buffer s))) of
           None \<Rightarrow>
             (s\<lparr>console := console s @ [''Buffer full, cannot trigger new animation'']\<rparr>,
              None)
         | Some firstZeroIndex \<Rightarrow>
             (let s1 = setActive firstZeroIndex (Fin 1) s;
                  (s2, thrown) =
                    (case dataBuffers s1 of
                       None \<Rightarrow> (s1, None)
                     | Some dbs \<Rightarrow>
                         (let (dbs', thrown) = storeData firstZeroIndex data dbs
                          in (s1\<lparr>dataBuffers := Some dbs'\<rparr>, thrown)))
              in case thrown of
                   Some e \<Rightarrow> (s2, Some e)
                 | None \<Rightarrow>
                     (if easing = Spring
                      then s2\<lparr>animations :=
                             (animations s2)(firstZeroIndex \<mapsto>
                                SpringDriven targetValue springConfig)\<rparr>
                      else s2\<lparr>animations :=
                             (animations s2)(firstZeroIndex \<mapsto>
                                Eased \<lparr>startTime = Fin 0, duration = duration,
                                       easing = easing, targetValue = targetValue\<rparr>)\<rparr>,
                      None)))"

text \<open>The pool after a call of \<open>trigger\<close>, and whether the call returns.\<close>

definition trigger :: "triggerOptions \<Rightarrow> triggerState \<Rightarrow> triggerState" where
  "trigger options s = fst (triggerCall options s)"

definition triggerReturns :: "triggerOptions \<Rightarrow> triggerState \<Rightarrow> bool" where
  "triggerReturns options s = (snd (triggerCall options s) = None)"

subsection \<open>The frame loop\<close>

definition easedProgress :: "easingType \<Rightarrow> jsnum \<Rightarrow> jsnum" where
  "easedProgress e progress =
     (if e = EaseIn then progress * progress
      else if e = EaseOut then progress * (Fin 2 - progress)
      else if e = EaseInOut then
        (if progress < Fin 0.5 then Fin 2 * progress * progress
         else Fin (- 1) + (Fin 4 - Fin 2 * progress) * progress)
      else progress)"

text \<open>\<open>if (anim.startTime === 0) anim.startTime = state.clock.elapsedTime\<close>\<close>

definition initStart :: "jsnum \<Rightarrow> animationState \<Rightarrow> animationState" where
  "initStart now anim = (if startTime anim = Fin 0 then anim\<lparr>startTime := now\<rparr> else anim)"

definition progressAt :: "jsnum \<Rightarrow> animationState \<Rightarrow> jsnum" where
  "progressAt now anim =
     (let elapsed = now - startTime anim
      in Math_min (elapsed / duration anim) (Fin 1))"

text \<open>The state after the assignment \<open>valuesBuffer.array[i] = easedProgress *
  anim.targetValue\<close> (with the start time initialised in the stored record), before the
  clean-up test.\<close>

definition writeEased :: "jsnum \<Rightarrow> nat \<Rightarrow> animationState \<Rightarrow> triggerState \<Rightarrow> triggerState" where
  "writeEased now i anim0 s =
     (let anim = initStart now anim0;
          progress = progressAt now anim;
          s1 = s\<lparr>animations := (animations s)(i \<mapsto> Eased anim)\<rparr>
      in setValue i (easedProgress (easing anim) progress * targetValue anim) s1)"

text \<open>The clean-up of a completed manual animation.\<close>

definition cleanUp :: "nat \<Rightarrow> triggerState \<Rightarrow> triggerState" where
  "cleanUp i s =
     (let s1 = setActive i (Fin 0) s;
          s2 = setValue i (Fin 0) s1
      in s2\<lparr>animations := (animations s2)(i := None)\<rparr>)"

text \<open>The body of the loop at index \<open>i\<close>.\<close>

definition advance :: "jsnum \<Rightarrow> nat \<Rightarrow> triggerState \<Rightarrow> triggerState" where
  "advance now i s =
     (let isActive = (array (activeBuffer (buffer s)) ! i = Fin 1)
      in if isActive \<and> animations s i \<noteq> None then
           (case animations s i of
              Some (Eased anim) \<Rightarrow>
                if easing anim \<noteq> Spring then
                  (let s1 = writeEased now i anim s
                   in if Fin 1 \<le> progressAt now (initStart now anim)
                      then cleanUp i s1 else s1)
                else s
            | _ \<Rightarrow> s)
         else s)"

text \<open>The \<open>useFrame\<close> callback at clock time \<open>now\<close>: the loop over the slots, with
  the bound read before the loop. The hook is always given its buffer, so the early
  return for a missing buffer has no case here.\<close>

definition frame :: "jsnum \<Rightarrow> triggerState \<Rightarrow> triggerState" where
  "frame now s =
     (let bufferSize = length (array (activeBuffer (buffer s)))
      in fold (advance now) [0..<bufferSize] s)"

subsection \<open>Runs\<close>

text \<open>
  What can happen to a pool: a call of \<open>trigger\<close> (an exception it throws goes to its
  caller; the pool stays as the call left it), a frame, and a call by the spring
  integrator of one of the two callbacks it was given. The integrator is outside the
  repository; nothing is assumed about when, how often or for which slot it calls.
\<close>

datatype event =
  Trigger triggerOptions
| Frame jsnum
| SpringUpdate nat jsnum
| SpringComplete nat

fun step :: "event \<Rightarrow> triggerState \<Rightarrow> triggerState" where
  "step (Trigger options) s = trigger options s"
| "step (Frame now) s = frame now s"
| "step (SpringUpdate idx v) s = onUpdate idx v s"
| "step (SpringComplete idx) s = onComplete idx s"

definition run :: "event list \<Rightarrow> triggerState \<Rightarrow> triggerState" where
  "run evs s = fold step evs s"

section \<open>The trail texture (\<open>useGridTrailTexture\<close>)\<close>

subsection \<open>Library functions\<close>

fun Math_abs :: "jsnum \<Rightarrow> jsnum" where
  "Math_abs (Fin a) = Fin \<bar>a\<bar>"
| "Math_abs PInf = PInf"
| "Math_abs NInf = PInf"
| "Math_abs NaN = NaN"

fun Math_sign :: "jsnum \<Rightarrow> jsnum" where
  "Math_sign (Fin a) = Fin (sgn a)"
| "Math_sign PInf = Fin 1"
| "Math_sign NInf = Fin (- 1)"
| "Math_sign NaN = NaN"

fun Math_sqrt :: "jsnum \<Rightarrow> jsnum" where
  "Math_sqrt (Fin a) = (if a < 0 then NaN else Fin (sqrt a))"
| "Math_sqrt PInf = PInf"
| "Math_sqrt NInf = NaN"
| "Math_sqrt NaN = NaN"

definition isInfinite :: "jsnum \<Rightarrow> bool" where
  "isInfinite a = (a = PInf \<or> a = NInf)"

text \<open>\<open>Math.hypot\<close>: an infinite argument wins over NaN.\<close>

definition Math_hypot :: "jsnum \<Rightarrow> jsnum \<Rightarrow> jsnum" where
  "Math_hypot a b =
     (if isInfinite a \<or> isInfinite b then PInf
      else case (a, b) of
             (Fin u, Fin v) \<Rightarrow> Fin (sqrt (u * u + v * v))
           | _ \<Rightarrow> NaN)"

definition isIntegral :: "real \<Rightarrow> bool" where
  "isIntegral e = (of_int \<lfloor>e\<rfloor> = e)"

definition isOddIntegral :: "real \<Rightarrow> bool" where
  "isOddIntegral e = (isIntegral e \<and> odd \<lfloor>e\<rfloor>)"

text \<open>\<open>Math.pow\<close> and the operator \<open>**\<close> (Number::exponentiate of ECMAScript), in the
  order of its cases.\<close>

fun Math_pow :: "jsnum \<Rightarrow> jsnum \<Rightarrow> jsnum" where
  "Math_pow _ NaN = NaN"
| "Math_pow b (Fin e) =
     (if e = 0 then Fin 1
      else case b of
             NaN \<Rightarrow> NaN
           | PInf \<Rightarrow> if 0 < e then PInf else Fin 0
           | NInf \<Rightarrow> if 0 < e then (if isOddIntegral e then NInf else PInf) else Fin 0
           | Fin a \<Rightarrow>
               if a = 0 then (if 0 < e then Fin 0 else PInf)
               else if a < 0 \<and> \<not> isIntegral e then NaN
               else if isIntegral e then Fin (power_int a \<lfloor>e\<rfloor>)
               else Fin (a powr e))"
| "Math_pow b PInf =
     (case b of
        NaN \<Rightarrow> NaN
      | Fin a \<Rightarrow> if 1 < \<bar>a\<bar> then PInf else if \<bar>a\<bar> = 1 then NaN else Fin 0
      | _ \<Rightarrow> PInf)"
| "Math_pow b NInf =
     (case b of
        NaN \<Rightarrow> NaN
      | Fin a \<Rightarrow> if 1 < \<bar>a\<bar> then Fin 0 else if \<bar>a\<bar> = 1 then NaN else PInf
      | _ \<Rightarrow> Fin 0)"

text \<open>The value is truthy: neither zero nor NaN (for \<open>a || b\<close>).\<close>

definition truthy :: "jsnum \<Rightarrow> bool" where
  "truthy a = (a \<noteq> Fin 0 \<and> a \<noteq> NaN)"

text \<open>Modelled from the spec: \<open>clamp\<close> of the module \<open>@/utils/math\<close>, which is not among
  the source files. The spec has the force clamped to a fixed maximum and the pointer
  normalised into a range: \<open>clamp v lo hi\<close> confines \<open>v\<close> between \<open>lo\<close> and \<open>hi\<close>.\<close>

definition clamp :: "jsnum \<Rightarrow> jsnum \<Rightarrow> jsnum \<Rightarrow> jsnum" where
  "clamp v lo hi = Math_min (Math_max v lo) hi"

subsection \<open>State\<close>

record point =
  px :: jsnum
  py :: jsnum

record DOMRect =
  rect_left :: jsnum
  rect_top :: jsnum
  rect_width :: jsnum
  rect_height :: jsnum

record pointerEvent =
  clientX :: jsnum
  clientY :: jsnum

record dataTexture =
  image_data :: "jsnum list"
  texture_needsUpdate :: bool

text \<open>The options after the defaults are filled in. The grid resolution is a number of
  cells (\<open>N => N\<^sup>2 texels\<close>), so it is a natural number here.\<close>

record trailOptions =
  grid :: nat
  radius :: jsnum
  strength :: jsnum
  decay :: jsnum
  influenceGain :: jsnum
  influenceGamma :: jsnum

definition defaultOptions :: trailOptions where
  "defaultOptions =
     \<lparr>grid = 50, radius = Fin 0.05, strength = Fin 0.06, decay = Fin 0.75,
      influenceGain = Fin 1, influenceGamma = Fin 1\<rparr>"

record trailState =
  dataTextureRef :: "dataTexture option"
  pointerVelocityRef :: point
  pointerRef :: point
  rawPointerRef :: "point option"
  canvasBoundsRef :: "DOMRect option"

text \<open>The refs as the hook creates them.\<close>

definition initialTrail :: trailState where
  "initialTrail =
     \<lparr>dataTextureRef = None,
      pointerVelocityRef = \<lparr>px = Fin 0, py = Fin 0\<rparr>,
      pointerRef = \<lparr>px = Fin 0, py = Fin 0\<rparr>,
      rawPointerRef = None,
      canvasBoundsRef = None\<rparr>"

subsection \<open>The effect: grid, bounds and pointer handlers\<close>

definition regenerateGrid :: "trailOptions \<Rightarrow> trailState \<Rightarrow> trailState" where
  "regenerateGrid options st =
     (let dimensions = grid options * grid options
      in st\<lparr>dataTextureRef :=
           Some \<lparr>image_data = replicate (4 * dimensions) (Fin 0), texture_needsUpdate = True\<rparr>\<rparr>)"

text \<open>\<open>domElement\<close> is \<open>gl.domElement\<close> as its bounding rectangle at the time of the
  call, \<open>None\<close> when the renderer has no element.\<close>

definition updateCanvasBounds :: "DOMRect option \<Rightarrow> trailState \<Rightarrow> trailState" where
  "updateCanvasBounds domElement st =
     (case domElement of
        None \<Rightarrow> st
      | Some rect \<Rightarrow> st\<lparr>canvasBoundsRef := Some rect\<rparr>)"

definition storePointer :: "pointerEvent \<Rightarrow> DOMRect \<Rightarrow> trailState \<Rightarrow> trailState" where
  "storePointer event bounds st =
     (let x = (clientX event - rect_left bounds) / rect_width bounds;
          y = (clientY event - rect_top bounds) / rect_height bounds;
          ndcX = clamp (x * Fin 2) (Fin 0) (Fin 2);
          ndcY = clamp (y * Fin 2) (Fin 0) (Fin 2)
      in st\<lparr>rawPointerRef := Some \<lparr>px = ndcX, py = ndcY\<rparr>\<rparr>)"

text \<open>The handler returns the refs as it leaves them and the exception, if it throws.\<close>

definition handlePointerMove ::
  "DOMRect option \<Rightarrow> pointerEvent \<Rightarrow> trailState \<Rightarrow> trailState \<times> error option" where
  "handlePointerMove domElement event st =
     (case canvasBoundsRef st of
        Some bounds \<Rightarrow> (storePointer event bounds st, None)
      | None \<Rightarrow>
          (let st1 = updateCanvasBounds domElement st
           in case canvasBoundsRef st1 of
                None \<Rightarrow> (st1, Some CanvasBoundsNotFound)
              | Some bounds \<Rightarrow> (storePointer event bounds st1, None)))"

definition resetVelocity :: "trailState \<Rightarrow> trailState" where
  "resetVelocity st = st\<lparr>pointerVelocityRef := \<lparr>px = Fin 0, py = Fin 0\<rparr>\<rparr>"

definition handlePointerLeave :: "trailState \<Rightarrow> trailState" where
  "handlePointerLeave st =
     st\<lparr>rawPointerRef := None, pointerVelocityRef := \<lparr>px = Fin 0, py = Fin 0\<rparr>\<rparr>"

subsection \<open>The frame\<close>

text \<open>
  One round of the decay loop at index \<open>i\<close>: three compound assignments, each storing
  the product into the \<open>Float32Array\<close>. Where an index is outside the array the source
  reads \<open>undefined\<close> and its write is ignored; the list update ignores it as well,
  whatever was read.
\<close>

definition decayCell :: "jsnum \<Rightarrow> nat \<Rightarrow> jsnum list \<Rightarrow> jsnum list" where
  "decayCell d i data =
     (let data1 = data[i := toFloat32 (data ! i * d)];
          data2 = data1[i + 1 := toFloat32 (data1 ! (i + 1) * d)]
      in data2[i + 2 := toFloat32 (data2 ! (i + 2) * d)])"

function decayLoop :: "jsnum \<Rightarrow> nat \<Rightarrow> jsnum list \<Rightarrow> jsnum list" where
  "decayLoop d i data =
     (if i < length data then decayLoop d (i + 4) (decayCell d i data) else data)"
  by pat_completeness auto
termination
  by (relation "measure (\<lambda>(d, i, data). length data - i)") (auto simp: decayCell_def Let_def)

definition cellDist :: "jsnum \<Rightarrow> jsnum \<Rightarrow> nat \<Rightarrow> nat \<Rightarrow> jsnum" where
  "cellDist cellX cellY x y =
     (let cellCenterX = Fin (real x) + Fin 0.5;
          cellCenterY = Fin (real y) + Fin 0.5
      in Math_pow (cellX - cellCenterX) (Fin 2) + Math_pow (cellY - cellCenterY) (Fin 2))"

text \<open>The test \<open>dist < distMax && dist > 0\<close>.\<close>

definition inBrush :: "jsnum \<Rightarrow> jsnum \<Rightarrow> bool" where
  "inBrush mouseRadius dist' =
     (let distMax = Math_pow mouseRadius (Fin 2)
      in dist' < distMax \<and> Fin 0 < dist')"

definition cellForce :: "jsnum \<Rightarrow> jsnum \<Rightarrow> jsnum" where
  "cellForce mouseRadius dist' =
     (let force = mouseRadius / Math_sqrt dist'
      in clamp force (Fin 0) (Fin 10))"

text \<open>What one cell receives in its three channels, from the pointer velocity and the
  force.\<close>

definition contribution :: "trailOptions \<Rightarrow> point \<Rightarrow> jsnum \<Rightarrow> jsnum \<times> jsnum \<times> jsnum" where
  "contribution options velocity force =
     (let size = Fin (real (grid options));
          vxGrid = px velocity * (size / Fin 2);
          vyGrid = (- py velocity) * (size / Fin 2);
          speedGrid = Math_hypot vxGrid vyGrid;
          vxCurved = Math_sign vxGrid * Math_pow (Math_abs vxGrid) (influenceGamma options);
          vyCurved = Math_sign vyGrid * Math_pow (Math_abs vyGrid) (influenceGamma options);
          speedCurved = Math_pow speedGrid (influenceGamma options);
          scale = influenceGain options * strength options * force;
          dispBase = scale * speedCurved;
          hyp = Math_hypot vxCurved vyCurved;
          len = (if truthy hyp then hyp else Fin 1);
          ndx = vxCurved / len;
          ndy = vyCurved / len
      in (dispBase * (- ndx), dispBase * ndy, scale * speedCurved))"

definition depositCell ::
  "trailOptions \<Rightarrow> point \<Rightarrow> jsnum \<Rightarrow> jsnum \<Rightarrow> jsnum \<Rightarrow> nat \<Rightarrow> nat \<Rightarrow> jsnum list \<Rightarrow> jsnum list" where
  "depositCell options velocity cellX cellY mouseRadius x y data =
     (let dist' = cellDist cellX cellY x y
      in if inBrush mouseRadius dist' then
           (let dataIndex = 4 * (x + grid options * y);
                force = cellForce mouseRadius dist';
                (dr, dg, db) = contribution options velocity force;
                data1 = data[dataIndex := toFloat32 (data ! dataIndex + dr)];
                data2 = data1[dataIndex + 1 := toFloat32 (data1 ! (dataIndex + 1) + dg)]
            in data2[dataIndex + 2 := toFloat32 (data2 ! (dataIndex + 2) + db)])
         else data)"

definition depositLoop ::
  "trailOptions \<Rightarrow> point \<Rightarrow> jsnum \<Rightarrow> jsnum \<Rightarrow> jsnum \<Rightarrow> jsnum list \<Rightarrow> jsnum list" where
  "depositLoop options velocity cellX cellY mouseRadius data =
     fold (\<lambda>x. fold (depositCell options velocity cellX cellY mouseRadius x)
                  [0..<grid options])
       [0..<grid options] data"

text \<open>The velocity the frame computes from the pointer sample and the previous
  position.\<close>

definition frameVelocity :: "point \<Rightarrow> point \<Rightarrow> point" where
  "frameVelocity rawPointer prev =
     \<lparr>px = px rawPointer - px prev, py = py rawPointer - py prev\<rparr>"

text \<open>The end of the frame: the stored velocity is scaled and small components are
  zeroed.\<close>

definition settleVelocity :: "jsnum \<Rightarrow> point \<Rightarrow> point" where
  "settleVelocity d velocity =
     (let vx = px velocity * d;
          vy = py velocity * d;
          EPS = Fin 0.001
      in \<lparr>px = (if Math_abs vx < EPS then Fin 0 else vx),
          py = (if Math_abs vy < EPS then Fin 0 else vy)\<rparr>)"

definition trailFrame :: "trailOptions \<Rightarrow> trailState \<Rightarrow> trailState" where
  "trailFrame options st =
     (case dataTextureRef st of
        None \<Rightarrow> st
      | Some dt \<Rightarrow>
          (case rawPointerRef st of
             None \<Rightarrow>
               st\<lparr>dataTextureRef :=
                    Some \<lparr>image_data = decayLoop (decay options) 0 (image_data dt),
                          texture_needsUpdate = True\<rparr>\<rparr>
           | Some rawPointer \<Rightarrow>
               (let velocity = frameVelocity rawPointer (pointerRef st);
                    pointer = \<lparr>px = px rawPointer, py = py rawPointer\<rparr>;
                    size = Fin (real (grid options));
                    mouseRadius = size * radius options;
                    cellX = px pointer * Fin 0.5 * size - mouseRadius * Fin 0.5;
                    cellY = (Fin 2 - py pointer) * Fin 0.5 * size + mouseRadius * Fin 0.5;
                    data1 = decayLoop (decay options) 0 (image_data dt);
                    data2 = depositLoop options velocity cellX cellY mouseRadius data1
                in st\<lparr>dataTextureRef :=
                        Some \<lparr>image_data = data2, texture_needsUpdate = True\<rparr>,
                      pointerRef := pointer,
                      pointerVelocityRef := settleVelocity (decay options) velocity\<rparr>)))"

section \<open>Views of the state\<close>

abbreviation activeArray :: "triggerState \<Rightarrow> jsnum list" where
  "activeArray s \<equiv> array (activeBuffer (buffer s))"

abbreviation valuesArray :: "triggerState \<Rightarrow> jsnum list" where
  "valuesArray s \<equiv> array (valuesBuffer (buffer s))"

text \<open>What the pool holds for slot \<open>i\<close>: its active flag, its value and its record.\<close>

definition slot :: "triggerState \<Rightarrow> nat \<Rightarrow> jsnum \<times> jsnum \<times> animation option" where
  "slot s i = (activeArray s ! i, valuesArray s ! i, animations s i)"

text \<open>The value array of the data buffer under a key (empty when there is none).\<close>

definition arrayOf :: "(string \<rightharpoonup> shaderBuffer) \<Rightarrow> string \<Rightarrow> jsnum list" where
  "arrayOf dbs key = (case dbs key of None \<Rightarrow> [] | Some b \<Rightarrow> array (valuesBuffer b))"

definition dataArray :: "triggerState \<Rightarrow> string \<Rightarrow> jsnum list" where
  "dataArray s key = (case dataBuffers s of None \<Rightarrow> [] | Some dbs \<Rightarrow> arrayOf dbs key)"

text \<open>Every entry of the \<open>active\<close> array is 0 or 1.\<close>

definition binaryFlags :: "triggerState \<Rightarrow> bool" where
  "binaryFlags s = list_all (\<lambda>v. v = Fin 0 \<or> v = Fin 1) (activeArray s)"

text \<open>The event is a call of a callback of the spring given for slot \<open>idx\<close>.\<close>

fun callbackOf :: "nat \<Rightarrow> event \<Rightarrow> bool" where
  "callbackOf idx (SpringUpdate j v) = (j = idx)"
| "callbackOf idx (SpringComplete j) = (j = idx)"
| "callbackOf idx _ = False"

text \<open>The slot a trigger takes in a pool, and the slots taken by the triggers of a run,
  in their order.\<close>

definition allocated :: "event \<Rightarrow> triggerState \<Rightarrow> nat list" where
  "allocated e s =
     (case e of
        Trigger options \<Rightarrow>
          (case findIndex (\<lambda>v. v = Fin 0) (activeArray s) of
             None \<Rightarrow> []
           | Some idx \<Rightarrow> [idx])
      | _ \<Rightarrow> [])"

fun allocations :: "event list \<Rightarrow> triggerState \<Rightarrow> nat list" where
  "allocations [] s = []"
| "allocations (e # evs) s = allocated e s @ allocations evs (step e s)"

text \<open>
  The reference curves, in the spec's words and not from the code: linear is the
  progress, easeIn its square, easeOut \<open>p (2 - p)\<close>, easeInOut the quadratic blend
  that joins \<open>2 p\<^sup>2\<close> below the midpoint to its mirror image \<open>1 - 2 (1 - p)\<^sup>2\<close> above it.
  The comparison with \<open>easedProgress\<close> of the code is a theorem below.
\<close>

fun referenceCurve :: "easingType \<Rightarrow> real \<Rightarrow> real" where
  "referenceCurve Linear p = p"
| "referenceCurve EaseIn p = p\<^sup>2"
| "referenceCurve EaseOut p = p * (2 - p)"
| "referenceCurve EaseInOut p = (if p < 1 / 2 then 2 * p\<^sup>2 else 1 - 2 * (1 - p)\<^sup>2)"
| "referenceCurve Spring p = p"

text \<open>The texel data of the trail texture (empty before the texture exists).\<close>

definition gridData :: "trailState \<Rightarrow> jsnum list" where
  "gridData st = (case dataTextureRef st of None \<Rightarrow> [] | Some dt \<Rightarrow> image_data dt)"

text \<open>The kinds of events.\<close>

fun isFrame :: "event \<Rightarrow> bool" where
  "isFrame (Frame now) = True"
| "isFrame _ = False"

fun isTrigger :: "event \<Rightarrow> bool" where
  "isTrigger (Trigger options) = True"
| "isTrigger _ = False"

section \<open>Concrete pools and trails\<close>

text \<open>A pool of two slots, both taken: the first by a linear animation of duration 2
  towards 3, the second by a spring towards 2.\<close>

definition fullPool :: triggerState where
  "fullPool =
     \<lparr>buffer =
        \<lparr>activeBuffer = \<lparr>array = [Fin 1, Fin 1], needsUpdate = True\<rparr>,
         valuesBuffer = \<lparr>array = [Fin 0, Fin 0], needsUpdate = False\<rparr>\<rparr>,
      dataBuffers = None,
      animations =
        [0 \<mapsto> Eased \<lparr>startTime = Fin 0, duration = Fin 2, easing = Linear,
                       targetValue = Fin 3\<rparr>,
         1 \<mapsto> SpringDriven (Fin 2) \<lparr>stiffness = Fin 100, damping = Fin 10\<rparr>],
      console = []\<rparr>"

definition noOptions :: triggerOptions where
  "noOptions =
     \<lparr>opt_targetValue = None, opt_duration = None, opt_easing = None,
      opt_springConfig = None, opt_data = None\<rparr>"

text \<open>A pool of one slot and a linear animation of duration 2 towards 3.\<close>

definition linearOptions :: triggerOptions where
  "linearOptions =
     \<lparr>opt_targetValue = Some (Fin 3), opt_duration = Some (Fin 2), opt_easing = Some Linear,
      opt_springConfig = None, opt_data = None\<rparr>"

definition linearAnim :: animationState where
  "linearAnim = \<lparr>startTime = Fin 1, duration = Fin 2, easing = Linear, targetValue = Fin 3\<rparr>"

text \<open>The pool after the trigger and frames at clock times 1 and 2: half way.\<close>

definition runningPool :: triggerState where
  "runningPool =
     \<lparr>buffer =
        \<lparr>activeBuffer = \<lparr>array = [Fin 1], needsUpdate = True\<rparr>,
         valuesBuffer = \<lparr>array = [Fin 1.5], needsUpdate = True\<rparr>\<rparr>,
      dataBuffers = None,
      animations = [0 \<mapsto> Eased linearAnim],
      console = []\<rparr>"

text \<open>An ease-in-out animation of duration 4 towards 10, started at clock time 1, in
  the second slot of a pool whose first slot has been freed: the pool after a trigger of
  duration 1, a trigger of the blend, and frames at clock times 1 and 2.\<close>

definition quickOptions :: triggerOptions where
  "quickOptions =
     \<lparr>opt_targetValue = None, opt_duration = Some (Fin 1), opt_easing = None,
      opt_springConfig = None, opt_data = None\<rparr>"

definition blendOptions :: triggerOptions where
  "blendOptions =
     \<lparr>opt_targetValue = Some (Fin 10), opt_duration = Some (Fin 4),
      opt_easing = Some EaseInOut, opt_springConfig = None, opt_data = None\<rparr>"

definition blendAnim :: animationState where
  "blendAnim = \<lparr>startTime = Fin 1, duration = Fin 4, easing = EaseInOut, targetValue = Fin 10\<rparr>"

definition blendPool :: triggerState where
  "blendPool =
     \<lparr>buffer =
        \<lparr>activeBuffer = \<lparr>array = [Fin 0, Fin 1], needsUpdate = True\<rparr>,
         valuesBuffer = \<lparr>array = [Fin 0, Fin 1.25], needsUpdate = True\<rparr>\<rparr>,
      dataBuffers = None,
      animations = [1 \<mapsto> Eased blendAnim],
      console = []\<rparr>"

text \<open>A pool of two slots with a data buffer \<open>posX\<close>, as \<open>useStorageBuffers\<close> makes
  them, and a spring trigger and a linear trigger that carry a payload.\<close>

definition payloadPool :: triggerState where
  "payloadPool =
     useStorageTrigger (newShaderBuffer 2) (Some [''posX'' \<mapsto> newShaderBuffer 2])"

definition springOptions :: triggerOptions where
  "springOptions =
     \<lparr>opt_targetValue = Some (Fin 2), opt_duration = None, opt_easing = Some Spring,
      opt_springConfig = None, opt_data = Some [(''posX'', Fin 0.5)]\<rparr>"

definition payloadOptions :: triggerOptions where
  "payloadOptions =
     \<lparr>opt_targetValue = None, opt_duration = Some (Fin 2), opt_easing = None,
      opt_springConfig = None, opt_data = Some [(''posX'', Fin 0.25)]\<rparr>"

text \<open>A trail on a grid of 2 by 2 cells with a deposit in its first cell and no pointer
  sample.\<close>

definition idleTrail :: trailState where
  "idleTrail =
     \<lparr>dataTextureRef =
        Some \<lparr>image_data =
                [Fin 4, Fin (- 2), Fin 8, Fin 0] @ replicate 12 (Fin 0),
              texture_needsUpdate = True\<rparr>,
      pointerVelocityRef = \<lparr>px = Fin 0, py = Fin 0\<rparr>,
      pointerRef = \<lparr>px = Fin 1, py = Fin 1\<rparr>,
      rawPointerRef = None,
      canvasBoundsRef = None\<rparr>"

text \<open>A trail on a grid of 2 by 2 cells whose pointer moved from \<open>(1, 1)\<close> to
  \<open>(1.001, 1.5)\<close> since the last frame.\<close>

definition smallOptions :: trailOptions where
  "smallOptions = defaultOptions\<lparr>grid := 2\<rparr>"

definition movingTrail :: trailState where
  "movingTrail =
     (regenerateGrid smallOptions initialTrail)
       \<lparr>pointerRef := \<lparr>px = Fin 1, py = Fin 1\<rparr>,
        rawPointerRef := Some \<lparr>px = Fin 1.001, py = Fin 1.5\<rparr>\<rparr>"


text \<open>A canvas of 200 by 100 pixels at the origin, and a pointer event at its centre.\<close>

definition canvasRect :: DOMRect where
  "canvasRect =
     \<lparr>rect_left = Fin 0, rect_top = Fin 0, rect_width = Fin 200, rect_height = Fin 100\<rparr>"

definition centreEvent :: pointerEvent where
  "centreEvent = \<lparr>clientX = Fin 100, clientY = Fin 50\<rparr>"

text \<open>A trigger whose payload names an inherited property before \<open>posX\<close>.\<close>

definition inheritedKeyOptions :: triggerOptions where
  "inheritedKeyOptions =
     \<lparr>opt_targetValue = None, opt_duration = None, opt_easing = None,
      opt_springConfig = None,
      opt_data = Some [(''toString'', Fin 1), (''posX'', Fin 0.5)]\<rparr>"

text \<open>A trail whose first channel has decayed to twice the smallest single-precision
  number, 2 to the power -148, with no pointer sample.\<close>

definition stuckTrail :: trailState where
  "stuckTrail =
     \<lparr>dataTextureRef =
        Some \<lparr>image_data = [Fin (1 / 2 ^ 148), Fin 0, Fin 0, Fin 0] @ replicate 12 (Fin 0),
              texture_needsUpdate = True\<rparr>,
      pointerVelocityRef = \<lparr>px = Fin 0, py = Fin 0\<rparr>,
      pointerRef = \<lparr>px = Fin 1, py = Fin 1\<rparr>,
      rawPointerRef = None,
      canvasBoundsRef = None\<rparr>"

section \<open>The slot pool: allocation\<close>

lemma findIndex_None_iff: "findIndex P xs = None \<longleftrightarrow> (\<forall>x \<in> set xs. \<not> P x)"
  by (induction xs) auto

lemma findIndex_Some:
  "findIndex P xs = Some i \<Longrightarrow> i < length xs \<and> P (xs ! i) \<and> (\<forall>j < i. \<not> P (xs ! j))"
proof (induction xs arbitrary: i)
  case Nil
  then show ?case by simp
next
  case (Cons x xs)
  show ?case
  proof (cases "P x")
    case True
    with Cons.prems show ?thesis by simp
  next
    case False
    with Cons.prems obtain k where k: "findIndex P xs = Some k" "i = Suc k"
      by auto
    from Cons.IH [OF k(1)] False k(2) show ?thesis
      by (auto simp: less_Suc_eq_0_disj)
  qed
qed

lemma reachable_fullPool:
  "run [Trigger linearOptions, Trigger springOptions]
     (useStorageTrigger (newShaderBuffer 2) None) = fullPool"
  by (simp add: run_def useStorageTrigger_def newShaderBuffer_def
      StorageInstancedBufferAttribute_def trigger_def triggerCall_def linearOptions_def springOptions_def
      orDefault_def setActive_def fullPool_def Let_def numeral_2_eq_2)

text \<open>
  C1. When no entry of the \<open>active\<close> array is zero, a call of \<open>trigger\<close> returns, without
  an exception, and leaves the pool as it was but for one warning added to the console:
  the \<open>active\<close> and \<open>values\<close> arrays and their flags, every data buffer and the map of
  animation records are the same.
\<close>

theorem trigger_full_noop:
  assumes "\<forall>v \<in> set (activeArray s). v \<noteq> Fin 0"
  shows "trigger options s =
           s\<lparr>console := console s @ [''Buffer full, cannot trigger new animation'']\<rparr>
         \<and> buffer (trigger options s) = buffer s
         \<and> dataBuffers (trigger options s) = dataBuffers s
         \<and> animations (trigger options s) = animations s
         \<and> console (trigger options s) =
             console s @ [''Buffer full, cannot trigger new animation'']
         \<and> triggerReturns options s
         \<and> triggerCall options s =
             (s\<lparr>console := console s @ [''Buffer full, cannot trigger new animation'']\<rparr>,
              None)"
proof -
  from assms have "findIndex (\<lambda>v. v = Fin 0) (activeArray s) = None"
    by (simp add: findIndex_None_iff)
  then show ?thesis
    by (simp add: trigger_def triggerReturns_def triggerCall_def Let_def)
qed

theorem trigger_full_noop_witness:
  "trigger noOptions fullPool =
     fullPool\<lparr>console := [''Buffer full, cannot trigger new animation'']\<rparr>
   \<and> activeArray (trigger noOptions fullPool) = [Fin 1, Fin 1]
   \<and> valuesArray (trigger noOptions fullPool) = [Fin 0, Fin 0]
   \<and> animations (trigger noOptions fullPool) = animations fullPool
   \<and> triggerReturns noOptions fullPool"
  using trigger_full_noop [of fullPool noOptions]
  by (simp add: fullPool_def)

section \<open>The slot pool: what each operation touches\<close>


lemma setActive_simps [simp]:
  "activeArray (setActive i v s) = (activeArray s)[i := v]"
  "valuesBuffer (buffer (setActive i v s)) = valuesBuffer (buffer s)"
  "animations (setActive i v s) = animations s"
  "dataBuffers (setActive i v s) = dataBuffers s"
  "console (setActive i v s) = console s"
  by (simp_all add: setActive_def)

lemma setValue_simps [simp]:
  "valuesArray (setValue i v s) = (valuesArray s)[i := v]"
  "activeBuffer (buffer (setValue i v s)) = activeBuffer (buffer s)"
  "animations (setValue i v s) = animations s"
  "dataBuffers (setValue i v s) = dataBuffers s"
  "console (setValue i v s) = console s"
  by (simp_all add: setValue_def)

lemma cleanUp_simps [simp]:
  "activeArray (cleanUp i s) = (activeArray s)[i := Fin 0]"
  "valuesArray (cleanUp i s) = (valuesArray s)[i := Fin 0]"
  "animations (cleanUp i s) = (animations s)(i := None)"
  "dataBuffers (cleanUp i s) = dataBuffers s"
  "console (cleanUp i s) = console s"
  by (simp_all add: cleanUp_def Let_def)

lemma onComplete_simps [simp]:
  "activeArray (onComplete i s) = (activeArray s)[i := Fin 0]"
  "valuesArray (onComplete i s) = (valuesArray s)[i := Fin 0]"
  "animations (onComplete i s) = (animations s)(i := None)"
  "dataBuffers (onComplete i s) = dataBuffers s"
  "console (onComplete i s) = console s"
  by (simp_all add: onComplete_def Let_def)

lemma onUpdate_simps [simp]:
  "valuesArray (onUpdate i v s) = (valuesArray s)[i := v]"
  "activeBuffer (buffer (onUpdate i v s)) = activeBuffer (buffer s)"
  "animations (onUpdate i v s) = animations s"
  "dataBuffers (onUpdate i v s) = dataBuffers s"
  "console (onUpdate i v s) = console s"
  by (simp_all add: onUpdate_def)

lemma writeEased_simps [simp]:
  "valuesArray (writeEased now i anim s) =
     (valuesArray s)[i := easedProgress (easing (initStart now anim))
                            (progressAt now (initStart now anim))
                          * targetValue (initStart now anim)]"
  "activeBuffer (buffer (writeEased now i anim s)) = activeBuffer (buffer s)"
  "animations (writeEased now i anim s) = (animations s)(i \<mapsto> Eased (initStart now anim))"
  "dataBuffers (writeEased now i anim s) = dataBuffers s"
  "console (writeEased now i anim s) = console s"
  by (simp_all add: writeEased_def Let_def)

lemma initStart_fields [simp]:
  "duration (initStart now anim) = duration anim"
  "easing (initStart now anim) = easing anim"
  "targetValue (initStart now anim) = targetValue anim"
  by (simp_all add: initStart_def)

text \<open>The loop body at one index leaves the other slots, the data buffers and the
  console alone, and no array changes its length.\<close>

lemma advance_frame_facts:
  "length (activeArray (advance now j s)) = length (activeArray s)"
  "length (valuesArray (advance now j s)) = length (valuesArray s)"
  "dataBuffers (advance now j s) = dataBuffers s"
  "console (advance now j s) = console s"
  by (auto simp: advance_def Let_def split: option.splits animation.splits)

lemma advance_other_slot: "j \<noteq> i \<Longrightarrow> slot (advance now j s) i = slot s i"
  by (auto simp: advance_def slot_def Let_def split: option.splits animation.splits)

lemma advance_slot_cong:
  assumes "slot s i = slot s' i"
    and "i < length (valuesArray s)" "i < length (valuesArray s')"
    and "i < length (activeArray s)" "i < length (activeArray s')"
  shows "slot (advance now i s) i = slot (advance now i s') i"
  using assms
  by (auto simp: advance_def slot_def Let_def split: option.splits animation.splits)

lemma fold_advance_length:
  "length (activeArray (fold (advance now) js s)) = length (activeArray s)
   \<and> length (valuesArray (fold (advance now) js s)) = length (valuesArray s)
   \<and> dataBuffers (fold (advance now) js s) = dataBuffers s
   \<and> console (fold (advance now) js s) = console s"
  by (induction js arbitrary: s) (simp_all add: advance_frame_facts)

lemma fold_advance_slot:
  assumes "distinct js" "i < length (activeArray s)" "i < length (valuesArray s)"
  shows "slot (fold (advance now) js s) i =
           (if i \<in> set js then slot (advance now i s) i else slot s i)"
  using assms
proof (induction js arbitrary: s)
  case Nil
  then show ?case by simp
next
  case (Cons j js)
  have len: "i < length (activeArray (advance now j s))" "i < length (valuesArray (advance now j s))"
    using Cons.prems by (simp_all add: advance_frame_facts)
  have IH: "slot (fold (advance now) js (advance now j s)) i =
           (if i \<in> set js then slot (advance now i (advance now j s)) i
            else slot (advance now j s) i)"
    using Cons.IH [of "advance now j s"] Cons.prems len by simp
  show ?case
  proof (cases "i = j")
    case True
    with Cons.prems IH show ?thesis by simp
  next
    case False
    then have same: "slot (advance now j s) i = slot s i"
      by (simp add: advance_other_slot)
    have "slot (advance now i (advance now j s)) i = slot (advance now i s) i"
      by (rule advance_slot_cong [OF same]) (use len Cons.prems in simp_all)
    with IH same False show ?thesis by simp
  qed
qed

lemma frame_slot:
  assumes "i < length (activeArray s)" "i < length (valuesArray s)"
  shows "slot (frame now s) i = slot (advance now i s) i"
  using fold_advance_slot [of "[0..<length (activeArray s)]" i s now] assms
  by (simp add: frame_def Let_def)

lemma frame_facts:
  "length (activeArray (frame now s)) = length (activeArray s)"
  "length (valuesArray (frame now s)) = length (valuesArray s)"
  "dataBuffers (frame now s) = dataBuffers s"
  "console (frame now s) = console s"
  by (simp_all add: frame_def Let_def fold_advance_length)


section \<open>The slot pool: what a trigger does\<close>

lemma triggerCall_full:
  assumes "findIndex (\<lambda>v. v = Fin 0) (activeArray s) = None"
  shows "triggerCall options s =
     (s\<lparr>console := console s @ [''Buffer full, cannot trigger new animation'']\<rparr>, None)"
  using assms by (simp add: triggerCall_def Let_def)

text \<open>The record a trigger registers when it returns.\<close>

lemma trigger_free:
  assumes "findIndex (\<lambda>v. v = Fin 0) (activeArray s) = Some idx"
  shows "activeArray (trigger options s) = (activeArray s)[idx := Fin 1]"
    and "valuesArray (trigger options s) = valuesArray s"
    and "console (trigger options s) = console s"
    and "dataBuffers (trigger options s) =
          (case dataBuffers s of
             None \<Rightarrow> None
           | Some dbs \<Rightarrow> Some (fst (storeData idx (orDefault [] (opt_data options)) dbs)))"
    and "triggerReturns options s \<longleftrightarrow>
          (case dataBuffers s of
             None \<Rightarrow> True
           | Some dbs \<Rightarrow> snd (storeData idx (orDefault [] (opt_data options)) dbs) = None)"
    and "animations (trigger options s) =
          (if triggerReturns options s
           then (animations s)(idx \<mapsto>
                  (if orDefault Linear (opt_easing options) = Spring
                   then SpringDriven (orDefault (Fin 1) (opt_targetValue options))
                          (orDefault \<lparr>stiffness = Fin 100, damping = Fin 10\<rparr>
                             (opt_springConfig options))
                   else Eased \<lparr>startTime = Fin 0,
                          duration = orDefault (Fin 2.5) (opt_duration options),
                          easing = orDefault Linear (opt_easing options),
                          targetValue = orDefault (Fin 1) (opt_targetValue options)\<rparr>))
           else animations s)"
  using assms
  by (auto simp: trigger_def triggerReturns_def triggerCall_def Let_def
      split: option.splits prod.splits)


section \<open>Arithmetic on finite numbers\<close>


lemma one_times_jsnum [simp]: "Fin 1 * v = v"
  by (cases v) simp_all

lemma minus_Fin [simp]: "Fin a - Fin b = Fin (a - b)"
  by (simp add: minus_jsnum_def)

lemma less_eq_Fin [simp]: "Fin a \<le> Fin b \<longleftrightarrow> a \<le> b"
  by (auto simp: less_eq_jsnum_def)

lemma Math_min_Fin [simp]: "Math_min (Fin a) (Fin b) = Fin (min a b)"
  by (auto simp: Math_min_def)

lemma Math_max_Fin [simp]: "Math_max (Fin a) (Fin b) = Fin (max a b)"
  by (auto simp: Math_max_def)

lemma progressAt_Fin:
  assumes "startTime anim = Fin t0" "duration anim = Fin D" "D \<noteq> 0"
  shows "progressAt (Fin t) anim = Fin (min ((t - t0) / D) 1)"
  using assms by (simp add: progressAt_def Let_def)

lemma easedProgress_one [simp]: "easedProgress e (Fin 1) = Fin 1"
  by (simp add: easedProgress_def)


section \<open>Manual animations: completion\<close>

lemma reachable_runningPool:
  "run [Trigger linearOptions, Frame (Fin 1), Frame (Fin 2)]
     (useStorageTrigger (newShaderBuffer 1) None) = runningPool"
  by (simp add: run_def useStorageTrigger_def newShaderBuffer_def
      StorageInstancedBufferAttribute_def trigger_def triggerCall_def linearOptions_def orDefault_def
      setActive_def setValue_def frame_def advance_def writeEased_def initStart_def
      progressAt_def easedProgress_def cleanUp_def runningPool_def linearAnim_def Let_def)

text \<open>
  C2, as stated, fails. At the frame on which the elapsed time reaches the duration the
  loop body assigns the target value and then, in the same call, resets the value to 0:
  after the frame the slot holds 0, not the target. Here the animation runs from clock
  time 1 for 2 seconds towards 3; after the frame at clock time 3 the value is 0.
\<close>

theorem completion_value_counterexample:
  "progressAt (Fin 3) linearAnim = Fin 1
   \<and> valuesArray (frame (Fin 3) runningPool) ! 0 = Fin 0
   \<and> valuesArray (frame (Fin 3) runningPool) ! 0 \<noteq> targetValue linearAnim"
  by (simp add: frame_def advance_def writeEased_def initStart_def
      progressAt_def easedProgress_def cleanUp_def runningPool_def linearAnim_def Let_def)

text \<open>
  C2, amended. For a manual record with a finite positive duration \<open>D\<close> whose start
  time is set, on a frame whose elapsed time is at least \<open>D\<close> the progress and the
  eased progress are 1 and the assignment writes the target value; the clean-up of the
  same frame then sets the value and the active flag to 0 and drops the record, so that
  after the frame the slot is free and its value is 0.
\<close>

theorem completion_frees_slot:
  assumes "i < length (activeArray s)" "i < length (valuesArray s)"
    and "activeArray s ! i = Fin 1"
    and "animations s i = Some (Eased anim)" "easing anim \<noteq> Spring"
    and "startTime anim = Fin t0" "t0 \<noteq> 0"
    and "duration anim = Fin D" "0 < D" "D \<le> t - t0"
  shows "progressAt (Fin t) anim = Fin 1
       \<and> easedProgress (easing anim) (progressAt (Fin t) anim) = Fin 1
       \<and> valuesArray (writeEased (Fin t) i anim s) ! i = targetValue anim
       \<and> activeArray (frame (Fin t) s) ! i = Fin 0
       \<and> valuesArray (frame (Fin t) s) ! i = Fin 0
       \<and> animations (frame (Fin t) s) i = None"
proof -
  have init: "initStart (Fin t) anim = anim"
    using assms(6,7) by (simp add: initStart_def)
  have "1 \<le> (t - t0) / D"
    using assms(9,10) by (simp add: le_divide_eq)
  then have p: "progressAt (Fin t) anim = Fin 1"
    using progressAt_Fin [OF assms(6) assms(8), of t] assms(9) by (simp add: min_def)
  have written: "valuesArray (writeEased (Fin t) i anim s) ! i = targetValue anim"
    using assms(2) by (simp add: init p)
  have adv: "advance (Fin t) i s = cleanUp i (writeEased (Fin t) i anim s)"
    using assms(3,4,5) by (simp add: advance_def Let_def init p)
  have "slot (frame (Fin t) s) i = slot (advance (Fin t) i s) i"
    using assms(1,2) by (rule frame_slot)
  also have "\<dots> = (Fin 0, Fin 0, None)"
    using assms(1,2) by (simp add: adv slot_def)
  finally have "slot (frame (Fin t) s) i = (Fin 0, Fin 0, None)" .
  with p written show ?thesis
    by (simp add: slot_def)
qed

theorem completion_frees_slot_witness:
  "progressAt (Fin 3) linearAnim = Fin 1
   \<and> valuesArray (writeEased (Fin 3) 0 linearAnim runningPool) ! 0 = Fin 3
   \<and> activeArray (frame (Fin 3) runningPool) ! 0 = Fin 0
   \<and> valuesArray (frame (Fin 3) runningPool) ! 0 = Fin 0
   \<and> animations (frame (Fin 3) runningPool) 0 = None"
  using completion_frees_slot [of 0 runningPool linearAnim 1 2 3]
  by (simp add: runningPool_def linearAnim_def)


section \<open>Manual animations: the easing curves\<close>


lemma reachable_blendPool:
  "run [Trigger quickOptions, Trigger blendOptions, Frame (Fin 1), Frame (Fin 2)]
     (useStorageTrigger (newShaderBuffer 2) None) = blendPool"
  by (simp add: run_def useStorageTrigger_def newShaderBuffer_def
      StorageInstancedBufferAttribute_def trigger_def triggerCall_def quickOptions_def blendOptions_def
      orDefault_def setActive_def setValue_def frame_def advance_def writeEased_def
      initStart_def progressAt_def easedProgress_def cleanUp_def blendPool_def blendAnim_def
      Let_def numeral_2_eq_2 fun_upd_twist)

text \<open>
  C3. For a manual record whose progress \<open>min(elapsed / duration, 1)\<close> is a number
  \<open>p\<close> between 0 and 1, the eased progress of the code is the reference curve at
  \<open>p\<close>: \<open>p\<close> for linear, \<open>p p\<close> for easeIn, \<open>p (2 - p)\<close> for easeOut and
  the two quadratic pieces joined at 0.5 for easeInOut, which gives exactly 0.5 at
  0.5. The assignment sets the slot's value to the eased progress times the target
  value, and that is the value after the frame while the progress is below 1.
\<close>

theorem eased_progress_curves:
  assumes "i < length (activeArray s)" "i < length (valuesArray s)"
    and "activeArray s ! i = Fin 1"
    and "animations s i = Some (Eased anim)" "easing anim \<noteq> Spring"
    and "progressAt now (initStart now anim) = Fin p" "0 \<le> p" "p \<le> 1"
  shows "easedProgress (easing anim) (Fin p) = Fin (referenceCurve (easing anim) p)
       \<and> easedProgress Linear (Fin p) = Fin p
       \<and> easedProgress EaseIn (Fin p) = Fin (p * p)
       \<and> easedProgress EaseOut (Fin p) = Fin (p * (2 - p))
       \<and> easedProgress EaseInOut (Fin p) =
           Fin (if p < 0.5 then 2 * p * p else - 1 + (4 - 2 * p) * p)
       \<and> easedProgress EaseInOut (Fin 0.5) = Fin 0.5
       \<and> valuesArray (writeEased now i anim s) ! i =
           Fin (referenceCurve (easing anim) p) * targetValue anim
       \<and> (p < 1 \<longrightarrow> valuesArray (frame now s) ! i =
                      Fin (referenceCurve (easing anim) p) * targetValue anim)"
proof -
  have curve: "easedProgress e (Fin q) = Fin (referenceCurve e q)" for e q
    by (cases e) (simp_all add: easedProgress_def power2_eq_square algebra_simps)
  have written: "valuesArray (writeEased now i anim s) ! i =
      Fin (referenceCurve (easing anim) p) * targetValue anim"
    using assms(2,6) by (simp add: curve)
  have running: "valuesArray (frame now s) ! i =
      Fin (referenceCurve (easing anim) p) * targetValue anim" if "p < 1"
  proof -
    have adv: "advance now i s = writeEased now i anim s"
      using assms(3,4,5,6) that by (simp add: advance_def Let_def)
    have "slot (frame now s) i = slot (advance now i s) i"
      using assms(1,2) by (rule frame_slot)
    then show ?thesis
      using written by (simp add: adv slot_def)
  qed
  have "easedProgress EaseInOut (Fin p) =
      Fin (if p < 0.5 then 2 * p * p else - 1 + (4 - 2 * p) * p)"
    by (simp add: easedProgress_def)
  moreover have "easedProgress EaseInOut (Fin 0.5) = Fin 0.5"
    by (simp add: easedProgress_def)
  moreover have "easedProgress EaseIn (Fin p) = Fin (p * p)"
    "easedProgress EaseOut (Fin p) = Fin (p * (2 - p))"
    "easedProgress Linear (Fin p) = Fin p"
    by (simp_all add: easedProgress_def)
  ultimately show ?thesis
    using curve written running by simp
qed

theorem eased_progress_curves_witness:
  "progressAt (Fin 3) (initStart (Fin 3) blendAnim) = Fin 0.5
   \<and> easedProgress EaseInOut (Fin 0.5) = Fin 0.5
   \<and> valuesArray (writeEased (Fin 3) 1 blendAnim blendPool) ! 1 = Fin 5
   \<and> valuesArray (frame (Fin 3) blendPool) ! 1 = Fin 5"
proof -
  have p: "progressAt (Fin 3) (initStart (Fin 3) blendAnim) = Fin 0.5"
    by (simp add: progressAt_def initStart_def blendAnim_def Let_def)
  show ?thesis
    using eased_progress_curves [of 1 blendPool blendAnim "Fin 3" "0.5"] p
    by (simp add: blendPool_def blendAnim_def power2_eq_square)
qed



section \<open>Spring-driven slots\<close>

lemma advance_spring_record:
  "animations s i = Some (SpringDriven a c) \<Longrightarrow> advance now i s = s"
  by (simp add: advance_def Let_def)

lemma advance_keeps_spring_slot:
  assumes "animations s idx = Some (SpringDriven a c)"
  shows "slot (advance now j s) idx = slot s idx"
proof (cases "j = idx")
  case True
  with assms show ?thesis by (simp add: advance_spring_record)
next
  case False
  then show ?thesis by (simp add: advance_other_slot)
qed

lemma fold_advance_keeps_spring_slot:
  assumes "animations s idx = Some (SpringDriven a c)"
  shows "slot (fold (advance now) js s) idx = slot s idx"
  using assms
proof (induction js arbitrary: s)
  case Nil
  then show ?case by simp
next
  case (Cons j js)
  have same: "slot (advance now j s) idx = slot s idx"
    using Cons.prems by (rule advance_keeps_spring_slot)
  then have "animations (advance now j s) idx = Some (SpringDriven a c)"
    using Cons.prems by (simp add: slot_def)
  from Cons.IH [OF this] same show ?case by simp
qed

lemma frame_keeps_spring_slot:
  "animations s idx = Some (SpringDriven a c) \<Longrightarrow> slot (frame now s) idx = slot s idx"
  by (simp add: frame_def Let_def fold_advance_keeps_spring_slot)

lemma trigger_keeps_taken_slot:
  assumes "activeArray s ! idx \<noteq> Fin 0"
  shows "slot (trigger options s) idx = slot s idx"
proof (cases "findIndex (\<lambda>v. v = Fin 0) (activeArray s)")
  case None
  then show ?thesis by (simp add: trigger_def triggerCall_full slot_def)
next
  case (Some j)
  from findIndex_Some [OF this] assms have "j \<noteq> idx" by auto
  then show ?thesis
    by (simp add: slot_def trigger_free [OF Some])
qed

lemma step_keeps_spring_slot:
  assumes "animations s idx = Some (SpringDriven a c)" "activeArray s ! idx = Fin 1"
    and "\<not> callbackOf idx e"
  shows "slot (step e s) idx = slot s idx"
proof (cases e)
  case (Trigger options)
  with assms(2) show ?thesis by (simp add: trigger_keeps_taken_slot)
next
  case (Frame now)
  with assms(1) show ?thesis by (simp add: frame_keeps_spring_slot)
next
  case (SpringUpdate j v)
  with assms(3) show ?thesis by (simp add: slot_def)
next
  case (SpringComplete j)
  with assms(3) show ?thesis by (simp add: slot_def)
qed

lemma run_keeps_spring_slot:
  assumes "animations s idx = Some (SpringDriven a c)" "activeArray s ! idx = Fin 1"
    and "\<forall>e \<in> set evs. \<not> callbackOf idx e"
  shows "slot (run evs s) idx = slot s idx"
  using assms
proof (induction evs arbitrary: s)
  case Nil
  then show ?case by (simp add: run_def)
next
  case (Cons e evs)
  have same: "slot (step e s) idx = slot s idx"
    using Cons.prems by (simp add: step_keeps_spring_slot)
  then have "animations (step e s) idx = Some (SpringDriven a c)"
    "activeArray (step e s) ! idx = Fin 1"
    using Cons.prems(1,2) by (simp_all add: slot_def)
  from Cons.IH [OF this] Cons.prems(3) same show ?case
    by (simp add: run_def)
qed

lemma frame_keeps_free_slot:
  assumes "animations s idx = None"
  shows "slot (frame now s) idx = slot s idx"
proof -
  have one: "slot (advance now j t) idx = slot t idx" if "animations t idx = None" for j t
  proof (cases "j = idx")
    case True
    with that show ?thesis by (simp add: advance_def Let_def)
  next
    case False
    then show ?thesis by (simp add: advance_other_slot)
  qed
  have "slot (fold (advance now) js s) idx = slot s idx" for js
    using assms
  proof (induction js arbitrary: s)
    case Nil
    then show ?case by simp
  next
    case (Cons j js)
    have same: "slot (advance now j s) idx = slot s idx"
      using Cons.prems by (rule one)
    then have "animations (advance now j s) idx = None"
      using Cons.prems by (simp add: slot_def)
    from Cons.IH [OF this] same show ?case by simp
  qed
  then show ?thesis
    by (simp add: frame_def Let_def)
qed

lemma nth_update_cong:
  assumes "length xs = length ys" "xs ! i = ys ! i"
  shows "xs[j := v] ! i = ys[j := v] ! i"
proof (cases "j = i \<and> i < length xs")
  case True
  with assms(1) show ?thesis by simp
next
  case False
  with assms show ?thesis
    by (cases "j = i") (simp_all add: list_update_beyond)
qed

lemma frames_do_not_matter:
  assumes "slot s idx = slot s' idx"
    and "length (valuesArray s) = length (valuesArray s')"
    and "length (activeArray s) = length (activeArray s')"
    and "animations s idx = None \<or> (\<exists>a c. animations s idx = Some (SpringDriven a c))"
    and "\<forall>e \<in> set evs. \<not> isTrigger e"
  shows "slot (run evs s) idx = slot (run (filter (\<lambda>e. \<not> isFrame e) evs) s') idx"
  using assms
proof (induction evs arbitrary: s s')
  case Nil
  then show ?case by (simp add: run_def)
next
  case (Cons e evs)
  note agree = Cons.prems(1) and vlen = Cons.prems(2) and alen = Cons.prems(3)
    and entry = Cons.prems(4)
  have rest: "\<forall>e \<in> set evs. \<not> isTrigger e"
    using Cons.prems(5) by simp
  show ?case
  proof (cases e)
    case (Trigger options)
    with Cons.prems(5) show ?thesis by simp
  next
    case (Frame now)
    have same: "slot (frame now s) idx = slot s idx"
      using entry by (auto simp: frame_keeps_free_slot frame_keeps_spring_slot)
    then have "slot (frame now s) idx = slot s' idx"
      using agree by simp
    moreover have "length (valuesArray (frame now s)) = length (valuesArray s')"
      "length (activeArray (frame now s)) = length (activeArray s')"
      using vlen alen by (simp_all add: frame_facts)
    moreover have "animations (frame now s) idx = None
        \<or> (\<exists>a c. animations (frame now s) idx = Some (SpringDriven a c))"
      using same entry by (simp add: slot_def)
    ultimately have "slot (run evs (frame now s)) idx =
        slot (run (filter (\<lambda>e. \<not> isFrame e) evs) s') idx"
      using rest by (rule Cons.IH)
    then show ?thesis
      by (simp add: Frame run_def)
  next
    case (SpringUpdate j v)
    have "valuesArray s ! idx = valuesArray s' ! idx"
      using agree by (simp add: slot_def)
    with vlen have "(valuesArray s)[j := v] ! idx = (valuesArray s')[j := v] ! idx"
      by (rule nth_update_cong)
    with agree have slots: "slot (onUpdate j v s) idx = slot (onUpdate j v s') idx"
      by (simp add: slot_def)
    have lens: "length (valuesArray (onUpdate j v s)) = length (valuesArray (onUpdate j v s'))"
      "length (activeArray (onUpdate j v s)) = length (activeArray (onUpdate j v s'))"
      using vlen alen by simp_all
    have "animations (onUpdate j v s) idx = None
        \<or> (\<exists>a c. animations (onUpdate j v s) idx = Some (SpringDriven a c))"
      using entry by simp
    with slots lens have "slot (run evs (onUpdate j v s)) idx =
        slot (run (filter (\<lambda>e. \<not> isFrame e) evs) (onUpdate j v s')) idx"
      using rest by (rule Cons.IH)
    then show ?thesis
      by (simp add: SpringUpdate run_def)
  next
    case (SpringComplete j)
    have "valuesArray s ! idx = valuesArray s' ! idx"
      using agree by (simp add: slot_def)
    with vlen have v: "(valuesArray s)[j := Fin 0] ! idx = (valuesArray s')[j := Fin 0] ! idx"
      by (rule nth_update_cong)
    have "activeArray s ! idx = activeArray s' ! idx"
      using agree by (simp add: slot_def)
    with alen have a: "(activeArray s)[j := Fin 0] ! idx = (activeArray s')[j := Fin 0] ! idx"
      by (rule nth_update_cong)
    from agree v a have slots: "slot (onComplete j s) idx = slot (onComplete j s') idx"
      by (simp add: slot_def)
    have lens: "length (valuesArray (onComplete j s)) = length (valuesArray (onComplete j s'))"
      "length (activeArray (onComplete j s)) = length (activeArray (onComplete j s'))"
      using vlen alen by simp_all
    have "animations (onComplete j s) idx = None
        \<or> (\<exists>a c. animations (onComplete j s) idx = Some (SpringDriven a c))"
      using entry by auto
    with slots lens have "slot (run evs (onComplete j s)) idx =
        slot (run (filter (\<lambda>e. \<not> isFrame e) evs) (onComplete j s')) idx"
      using rest by (rule Cons.IH)
    then show ?thesis
      by (simp add: SpringComplete run_def)
  qed
qed

text \<open>
  C6. A trigger with easing \<open>spring\<close> that finds a free slot and returns stores the
  spring's handle for it, not a manual record. The loop body at that slot does nothing, a
  frame leaves the slot's active flag, value and record as they are, and so does every
  run of frames, further triggers and callbacks of other slots: only the callbacks of the
  slot's own spring change them. Switching the frames off changes nothing for the slot:
  a run of frames and spring callbacks (of any slot, the slot's own included) and the
  same run with its frames removed leave the slot with the same flag, value and record.
  (A trigger that throws in its payload loop has not called the spring integrator, and
  no slot is spring-driven by it.)
\<close>

theorem spring_slot_untouched_by_frames:
  assumes "findIndex (\<lambda>v. v = Fin 0) (activeArray s) = Some idx"
    and "opt_easing options = Some Spring"
    and "triggerReturns options s"
    and "\<forall>e \<in> set evs. \<not> callbackOf idx e"
    and "\<forall>e \<in> set evs'. \<not> isTrigger e"
  shows "animations (trigger options s) idx =
           Some (SpringDriven (orDefault (Fin 1) (opt_targetValue options))
                   (orDefault \<lparr>stiffness = Fin 100, damping = Fin 10\<rparr>
                      (opt_springConfig options)))
       \<and> advance now idx (trigger options s) = trigger options s
       \<and> slot (frame now (trigger options s)) idx = slot (trigger options s) idx
       \<and> slot (run evs (trigger options s)) idx = slot (trigger options s) idx
       \<and> activeArray (run evs (trigger options s)) ! idx = Fin 1
       \<and> valuesArray (run evs (trigger options s)) ! idx = valuesArray s ! idx
       \<and> slot (run evs' (trigger options s)) idx =
           slot (run (filter (\<lambda>e. \<not> isFrame e) evs') (trigger options s)) idx"
proof -
  let ?s = "trigger options s"
  let ?rec = "SpringDriven (orDefault (Fin 1) (opt_targetValue options))
                   (orDefault \<lparr>stiffness = Fin 100, damping = Fin 10\<rparr>
                      (opt_springConfig options))"
  from findIndex_Some [OF assms(1)] have idx: "idx < length (activeArray s)" by simp
  have rec: "animations ?s idx = Some ?rec"
    using trigger_free(6) [OF assms(1), of options] assms(2,3) by (simp add: orDefault_def)
  have act: "activeArray ?s ! idx = Fin 1"
    using trigger_free(1) [OF assms(1), of options] idx by simp
  have val: "valuesArray ?s ! idx = valuesArray s ! idx"
    using trigger_free(2) [OF assms(1), of options] by simp
  have runs: "slot (run evs ?s) idx = slot ?s idx"
    using rec act assms(4) by (rule run_keeps_spring_slot)
  have "animations ?s idx = None \<or> (\<exists>a c. animations ?s idx = Some (SpringDriven a c))"
    using rec by simp
  then have off: "slot (run evs' ?s) idx = slot (run (filter (\<lambda>e. \<not> isFrame e) evs') ?s) idx"
    using assms(5) by (intro frames_do_not_matter) simp_all
  have "advance now idx ?s = ?s"
    using rec by (rule advance_spring_record)
  moreover have "slot (frame now ?s) idx = slot ?s idx"
    using rec by (rule frame_keeps_spring_slot)
  ultimately show ?thesis
    using rec runs act val off by (simp add: slot_def)
qed

theorem spring_slot_untouched_by_frames_witness:
  "animations (trigger springOptions payloadPool) 0 =
     Some (SpringDriven (Fin 2) \<lparr>stiffness = Fin 100, damping = Fin 10\<rparr>)
   \<and> activeArray (run [Frame (Fin 1), Trigger linearOptions, Frame (Fin 9), SpringUpdate 1 (Fin 7)]
        (trigger springOptions payloadPool)) ! 0 = Fin 1
   \<and> valuesArray (run [Frame (Fin 1), Trigger linearOptions, Frame (Fin 9), SpringUpdate 1 (Fin 7)]
        (trigger springOptions payloadPool)) ! 0 = Fin 0
   \<and> slot (run [Frame (Fin 1), SpringUpdate 0 (Fin 0.7), Frame (Fin 2)]
        (trigger springOptions payloadPool)) 0 =
       slot (run [SpringUpdate 0 (Fin 0.7)] (trigger springOptions payloadPool)) 0"
proof -
  have free: "findIndex (\<lambda>v. v = Fin 0) (activeArray payloadPool) = Some 0"
    by (simp add: payloadPool_def useStorageTrigger_def newShaderBuffer_def
        StorageInstancedBufferAttribute_def numeral_2_eq_2)
  have zero: "valuesArray payloadPool ! 0 = Fin 0"
    by (simp add: payloadPool_def useStorageTrigger_def newShaderBuffer_def
        StorageInstancedBufferAttribute_def)
  have spring: "opt_easing springOptions = Some Spring"
    by (simp add: springOptions_def)
  have others: "\<forall>e \<in> set [Frame (Fin 1), Trigger linearOptions, Frame (Fin 9),
      SpringUpdate 1 (Fin 7)]. \<not> callbackOf 0 e"
    by simp
  have plain: "\<forall>e \<in> set [Frame (Fin 1), SpringUpdate 0 (Fin 0.7), Frame (Fin 2)].
      \<not> isTrigger e"
    by simp
  have returns: "triggerReturns springOptions payloadPool"
    by (simp add: triggerReturns_def triggerCall_def springOptions_def payloadPool_def
        useStorageTrigger_def newShaderBuffer_def StorageInstancedBufferAttribute_def
        orDefault_def setActive_def Let_def numeral_2_eq_2)
  from spring_slot_untouched_by_frames [OF free spring returns others plain] zero
  show ?thesis
    by (simp add: springOptions_def orDefault_def)
qed


section \<open>The active flags\<close>

lemma useStorageBuffers_lookup:
  "useStorageBuffers keys n key =
     (if key \<in> set keys then Some (newShaderBuffer n) else None)"
proof -
  have "fold (\<lambda>k buffers. buffers(k \<mapsto> newShaderBuffer n)) keys m key =
      (if key \<in> set keys then Some (newShaderBuffer n) else m key)" for m
    by (induction keys arbitrary: m) auto
  then show ?thesis by (simp add: useStorageBuffers_def)
qed

lemma binaryFlags_update:
  assumes "list_all (\<lambda>v. v = Fin 0 \<or> v = Fin 1) xs" "w = Fin 0 \<or> w = Fin 1"
  shows "list_all (\<lambda>v. v = Fin 0 \<or> v = Fin 1) (xs[i := w])"
  using assms by (auto simp: list_all_iff dest!: set_update_subset_insert [THEN subsetD])

lemma advance_active:
  "activeArray (advance now j s) = activeArray s
   \<or> activeArray (advance now j s) = (activeArray s)[j := Fin 0]"
  by (auto simp: advance_def Let_def split: option.splits animation.splits)

lemma advance_binaryFlags: "binaryFlags s \<Longrightarrow> binaryFlags (advance now j s)"
  using advance_active [of now j s] by (auto simp: binaryFlags_def binaryFlags_update)

lemma fold_advance_binaryFlags: "binaryFlags s \<Longrightarrow> binaryFlags (fold (advance now) js s)"
  by (induction js arbitrary: s) (simp_all add: advance_binaryFlags)

lemma frame_binaryFlags: "binaryFlags s \<Longrightarrow> binaryFlags (frame now s)"
  by (simp add: frame_def Let_def fold_advance_binaryFlags)

lemma trigger_active:
  "activeArray (trigger options s) =
     (case findIndex (\<lambda>v. v = Fin 0) (activeArray s) of
        None \<Rightarrow> activeArray s
      | Some idx \<Rightarrow> (activeArray s)[idx := Fin 1])"
proof (cases "findIndex (\<lambda>v. v = Fin 0) (activeArray s)")
  case None
  then show ?thesis by (simp add: trigger_def triggerCall_full)
next
  case (Some idx)
  then show ?thesis by (simp add: trigger_free(1))
qed

lemma trigger_binaryFlags: "binaryFlags s \<Longrightarrow> binaryFlags (trigger options s)"
  by (auto simp: binaryFlags_def trigger_active binaryFlags_update split: option.splits)

lemma step_binaryFlags: "binaryFlags s \<Longrightarrow> binaryFlags (step e s)"
proof (cases e)
  case (Trigger options)
  then show "binaryFlags s \<Longrightarrow> ?thesis" by (simp add: trigger_binaryFlags)
next
  case (Frame now)
  then show "binaryFlags s \<Longrightarrow> ?thesis" by (simp add: frame_binaryFlags)
next
  case (SpringUpdate j v)
  then show "binaryFlags s \<Longrightarrow> ?thesis" by (simp add: binaryFlags_def)
next
  case (SpringComplete j)
  then show "binaryFlags s \<Longrightarrow> ?thesis" by (simp add: binaryFlags_def binaryFlags_update)
qed

lemma run_binaryFlags: "binaryFlags s \<Longrightarrow> binaryFlags (run evs s)"
  unfolding run_def by (induction evs arbitrary: s) (simp_all add: step_binaryFlags)

lemma frame_active:
  assumes "i < length (activeArray s)" "i < length (valuesArray s)"
  shows "activeArray (frame now s) ! i = activeArray s ! i
       \<or> activeArray (frame now s) ! i = Fin 0"
proof -
  have "slot (frame now s) i = slot (advance now i s) i"
    using assms by (rule frame_slot)
  then have "activeArray (frame now s) ! i = activeArray (advance now i s) ! i"
    by (simp add: slot_def)
  with advance_active [of now i s] assms(1) show ?thesis
    by auto
qed

text \<open>
  C9. From the pool that \<open>useStorageBuffers\<close> creates (all zero), after any run of
  triggers, frames and spring callbacks every entry of the \<open>active\<close> array is 0 or 1.
  A trigger that finds a free slot changes that one entry, which was 0, to 1, and one
  that finds none changes nothing; the completion of a spring and the clean-up of a
  manual animation set the slot's entry to 0, \<open>onUpdate\<close> leaves the array alone, and
  a frame leaves each entry as it was or sets it to 0.
\<close>

theorem active_flags_binary:
  assumes "useStorageBuffers keys n key = Some buf"
  shows "binaryFlags (run evs (useStorageTrigger buf dbs))
       \<and> (\<forall>v \<in> set (activeArray (run evs (useStorageTrigger buf dbs))). v = Fin 0 \<or> v = Fin 1)
       \<and> (findIndex (\<lambda>v. v = Fin 0) (activeArray s) = Some idx \<longrightarrow>
             idx < length (activeArray s) \<and> activeArray s ! idx = Fin 0
             \<and> activeArray (trigger options s) = (activeArray s)[idx := Fin 1])
       \<and> (findIndex (\<lambda>v. v = Fin 0) (activeArray s) = None \<longrightarrow>
             activeArray (trigger options s) = activeArray s)
       \<and> activeArray (onComplete i s) = (activeArray s)[i := Fin 0]
       \<and> activeArray (cleanUp i s) = (activeArray s)[i := Fin 0]
       \<and> activeArray (onUpdate i v s) = activeArray s
       \<and> (i < length (activeArray s) \<and> i < length (valuesArray s) \<longrightarrow>
             activeArray (frame now s) ! i = activeArray s ! i
             \<or> activeArray (frame now s) ! i = Fin 0)"
proof -
  from assms have buf: "buf = newShaderBuffer n"
    by (simp add: useStorageBuffers_lookup split: if_splits)
  have "binaryFlags (useStorageTrigger buf dbs)"
    by (simp add: buf binaryFlags_def useStorageTrigger_def newShaderBuffer_def
        StorageInstancedBufferAttribute_def list_all_iff)
  then have inv: "binaryFlags (run evs (useStorageTrigger buf dbs))"
    by (rule run_binaryFlags)
  then have all: "\<forall>v \<in> set (activeArray (run evs (useStorageTrigger buf dbs))). v = Fin 0 \<or> v = Fin 1"
    by (simp add: binaryFlags_def list_all_iff)
  have alloc: "idx < length (activeArray s) \<and> activeArray s ! idx = Fin 0
             \<and> activeArray (trigger options s) = (activeArray s)[idx := Fin 1]"
    if "findIndex (\<lambda>v. v = Fin 0) (activeArray s) = Some idx"
    using findIndex_Some [OF that] that by (simp add: trigger_active)
  have full: "activeArray (trigger options s) = activeArray s"
    if "findIndex (\<lambda>v. v = Fin 0) (activeArray s) = None"
    using that by (simp add: trigger_active)
  from inv all alloc full frame_active [of i s now] show ?thesis
    by simp
qed

theorem active_flags_binary_witness:
  "binaryFlags
     (run [Trigger linearOptions, Frame (Fin 1), Trigger springOptions, Frame (Fin 3),
           SpringUpdate 1 (Fin 0.7), SpringComplete 1, Trigger noOptions]
        (useStorageTrigger (newShaderBuffer 2) None))
   \<and> activeArray (trigger linearOptions (useStorageTrigger (newShaderBuffer 2) None)) =
       [Fin 1, Fin 0]
   \<and> activeArray (onComplete 0 fullPool) = [Fin 0, Fin 1]
   \<and> activeArray (frame (Fin 3) runningPool) ! 0 = Fin 0"
proof -
  have made: "useStorageBuffers [''pulse''] 2 ''pulse'' = Some (newShaderBuffer 2)"
    by (simp add: useStorageBuffers_lookup)
  have free: "findIndex (\<lambda>v. v = Fin 0)
      (activeArray (useStorageTrigger (newShaderBuffer 2) None)) = Some 0"
    by (simp add: useStorageTrigger_def newShaderBuffer_def
        StorageInstancedBufferAttribute_def numeral_2_eq_2)
  have freed: "activeArray (frame (Fin 3) runningPool) ! 0 = Fin 0"
    by (simp add: frame_def advance_def writeEased_def initStart_def
      progressAt_def easedProgress_def cleanUp_def runningPool_def linearAnim_def Let_def)
  from active_flags_binary [OF made, of
      "[Trigger linearOptions, Frame (Fin 1), Trigger springOptions, Frame (Fin 3),
        SpringUpdate 1 (Fin 0.7), SpringComplete 1, Trigger noOptions]" None
      "useStorageTrigger (newShaderBuffer 2) None" 0 linearOptions]
    active_flags_binary [OF made, of "[]" None fullPool 0 noOptions 0]
    free freed
  show ?thesis
    by (simp add: useStorageTrigger_def newShaderBuffer_def
        StorageInstancedBufferAttribute_def numeral_2_eq_2 fullPool_def)
qed



section \<open>Payload data\<close>

lemma storeData_other_index:
  "i \<noteq> idx \<Longrightarrow> arrayOf (fst (storeData idx data dbs)) key ! i = arrayOf dbs key ! i"
proof (induction data arbitrary: dbs)
  case Nil
  then show ?case by simp
next
  case (Cons kv data)
  obtain k v where kv: "kv = (k, v)" by (cases kv)
  have IH: "arrayOf (fst (storeData idx data m)) key ! i = arrayOf m key ! i" for m
    using Cons.IH Cons.prems by simp
  show ?case
  proof (cases "dbs k")
    case None
    then show ?thesis by (simp add: kv IH)
  next
    case (Some b)
    let ?dbs = "dbs(k \<mapsto> b\<lparr>valuesBuffer :=
               \<lparr>array = (array (valuesBuffer b))[idx := v], needsUpdate = True\<rparr>\<rparr>)"
    have "arrayOf ?dbs key ! i = arrayOf dbs key ! i"
      using Cons.prems Some by (simp add: arrayOf_def)
    with IH [of ?dbs] Some show ?thesis
      by (simp add: kv)
  qed
qed

lemma storeData_absent_key:
  "key \<notin> fst ` set data \<Longrightarrow> arrayOf (fst (storeData idx data dbs)) key = arrayOf dbs key"
proof (induction data arbitrary: dbs)
  case Nil
  then show ?case by simp
next
  case (Cons kv data)
  obtain k v where kv: "kv = (k, v)" by (cases kv)
  have IH: "arrayOf (fst (storeData idx data m)) key = arrayOf m key" for m
    using Cons.IH Cons.prems by simp
  have other: "key \<noteq> k"
    using Cons.prems by (simp add: kv)
  show ?case
  proof (cases "dbs k")
    case None
    then show ?thesis by (simp add: kv IH)
  next
    case (Some b)
    let ?dbs = "dbs(k \<mapsto> b\<lparr>valuesBuffer :=
               \<lparr>array = (array (valuesBuffer b))[idx := v], needsUpdate = True\<rparr>\<rparr>)"
    have "arrayOf ?dbs key = arrayOf dbs key"
      using other by (simp add: arrayOf_def)
    with IH [of ?dbs] Some show ?thesis
      by (simp add: kv)
  qed
qed

text \<open>The payload loop throws exactly when a key without a data buffer names an
  inherited property.\<close>

lemma storeData_returns_iff:
  "snd (storeData idx data dbs) = None \<longleftrightarrow>
     (\<forall>key \<in> fst ` set data. dbs key = None \<longrightarrow> key \<notin> set objectPrototypeKeys)"
proof (induction data arbitrary: dbs)
  case Nil
  then show ?case by simp
next
  case (Cons kv data)
  obtain k v where kv: "kv = (k, v)" by (cases kv)
  show ?case
  proof (cases "dbs k")
    case None
    then show ?thesis
      using Cons.IH [of dbs] by (auto simp: kv)
  next
    case (Some b)
    let ?dbs = "dbs(k \<mapsto> b\<lparr>valuesBuffer :=
               \<lparr>array = (array (valuesBuffer b))[idx := v], needsUpdate = True\<rparr>\<rparr>)"
    have same: "(?dbs key = None) = (dbs key = None)" for key
      using Some by simp
    have step: "storeData idx (kv # data) dbs = storeData idx data ?dbs"
      using Some by (simp add: kv)
    have "snd (storeData idx data ?dbs) = None \<longleftrightarrow>
        (\<forall>key \<in> fst ` set data. ?dbs key = None \<longrightarrow> key \<notin> set objectPrototypeKeys)"
      by (rule Cons.IH)
    also have "\<dots> \<longleftrightarrow>
        (\<forall>key \<in> fst ` set data. dbs key = None \<longrightarrow> key \<notin> set objectPrototypeKeys)"
      by (simp only: same)
    also have "\<dots> \<longleftrightarrow>
        (\<forall>key \<in> fst ` set (kv # data). dbs key = None \<longrightarrow> key \<notin> set objectPrototypeKeys)"
      using Some by (simp add: kv)
    finally show ?thesis
      by (simp only: step)
  qed
qed

lemma storeData_written:
  assumes "distinct (map fst data)" "(key, v) \<in> set data" "idx < length (arrayOf dbs key)"
    and "snd (storeData idx data dbs) = None"
  shows "arrayOf (fst (storeData idx data dbs)) key ! idx = v"
  using assms
proof (induction data arbitrary: dbs)
  case Nil
  then show ?case by simp
next
  case (Cons kv data)
  obtain k w where kv: "kv = (k, w)" by (cases kv)
  have keys: "distinct (map fst data)" "k \<notin> fst ` set data"
    using Cons.prems(1) by (simp_all add: kv)
  show ?case
  proof (cases "dbs k")
    case None
    then have "k \<noteq> key"
      using Cons.prems(3) by (auto simp: arrayOf_def)
    with Cons.prems(2) have mem: "(key, v) \<in> set data"
      by (simp add: kv)
    have step: "storeData idx (kv # data) dbs = storeData idx data dbs"
      using None Cons.prems(4) by (simp add: kv split: if_splits)
    then have "snd (storeData idx data dbs) = None"
      using Cons.prems(4) by simp
    with keys(1) mem Cons.prems(3)
    have "arrayOf (fst (storeData idx data dbs)) key ! idx = v"
      by (rule Cons.IH)
    then show ?thesis
      by (simp only: step)
  next
    case (Some b)
    let ?dbs = "dbs(k \<mapsto> b\<lparr>valuesBuffer :=
               \<lparr>array = (array (valuesBuffer b))[idx := w], needsUpdate = True\<rparr>\<rparr>)"
    have step: "storeData idx (kv # data) dbs = storeData idx data ?dbs"
      using Some by (simp add: kv)
    then have returns: "snd (storeData idx data ?dbs) = None"
      using Cons.prems(4) by simp
    have len: "idx < length (arrayOf ?dbs key)"
      using Cons.prems(3) Some by (auto simp: arrayOf_def)
    have "arrayOf (fst (storeData idx data ?dbs)) key ! idx = v"
    proof (cases "(key, v) \<in> set data")
      case True
      with keys(1) show ?thesis
        using len returns by (rule Cons.IH)
    next
      case False
      with Cons.prems(2) have here: "k = key" "w = v" by (simp_all add: kv)
      have "key \<notin> fst ` set data"
        using keys(2) by (simp add: here)
      then have "arrayOf (fst (storeData idx data ?dbs)) key = arrayOf ?dbs key"
        by (rule storeData_absent_key)
      moreover have "arrayOf ?dbs key ! idx = v"
        using Cons.prems(3) Some by (simp add: arrayOf_def here)
      ultimately show ?thesis
        by simp
    qed
    then show ?thesis
      by (simp only: step)
  qed
qed

lemma trigger_dataArray:
  "dataArray (trigger options s) key =
     (case findIndex (\<lambda>v. v = Fin 0) (activeArray s) of
        None \<Rightarrow> dataArray s key
      | Some idx \<Rightarrow>
          (case dataBuffers s of
             None \<Rightarrow> []
           | Some dbs \<Rightarrow> arrayOf (fst (storeData idx (orDefault [] (opt_data options)) dbs)) key))"
proof (cases "findIndex (\<lambda>v. v = Fin 0) (activeArray s)")
  case None
  then show ?thesis by (simp add: trigger_def triggerCall_full dataArray_def)
next
  case (Some idx)
  then show ?thesis
    by (cases "dataBuffers s") (simp_all add: dataArray_def trigger_free(4))
qed

lemma step_dataArray_other:
  assumes "idx \<notin> set (allocated e s)"
  shows "dataArray (step e s) key ! idx = dataArray s key ! idx"
proof (cases e)
  case (Trigger options)
  show ?thesis
  proof (cases "findIndex (\<lambda>v. v = Fin 0) (activeArray s)")
    case None
    then show ?thesis by (simp add: Trigger trigger_dataArray)
  next
    case (Some j)
    with assms Trigger have "idx \<noteq> j" by (simp add: allocated_def)
    have "dataArray (trigger options s) key =
        (case dataBuffers s of
           None \<Rightarrow> []
         | Some dbs \<Rightarrow> arrayOf (fst (storeData j (orDefault [] (opt_data options)) dbs)) key)"
      by (simp add: trigger_dataArray Some)
    with \<open>idx \<noteq> j\<close> show ?thesis
      by (cases "dataBuffers s") (simp_all add: Trigger dataArray_def storeData_other_index)
  qed
next
  case (Frame now)
  then show ?thesis by (simp add: dataArray_def frame_facts)
next
  case (SpringUpdate j v)
  then show ?thesis by (simp add: dataArray_def)
next
  case (SpringComplete j)
  then show ?thesis by (simp add: dataArray_def)
qed

lemma run_dataArray_other:
  "idx \<notin> set (allocations evs s) \<Longrightarrow> dataArray (run evs s) key ! idx = dataArray s key ! idx"
proof (induction evs arbitrary: s)
  case Nil
  then show ?case by (simp add: run_def)
next
  case (Cons e evs)
  then have "dataArray (run evs (step e s)) key ! idx = dataArray (step e s) key ! idx"
    by simp
  moreover have "dataArray (step e s) key ! idx = dataArray s key ! idx"
    using Cons.prems by (simp add: step_dataArray_other)
  ultimately show ?case by (simp add: run_def)
qed

lemmas pool_eval =
  run_def useStorageTrigger_def newShaderBuffer_def StorageInstancedBufferAttribute_def
  trigger_def triggerCall_def triggerReturns_def orDefault_def setActive_def setValue_def
  frame_def advance_def writeEased_def
  initStart_def progressAt_def easedProgress_def cleanUp_def onComplete_def onUpdate_def
  Let_def numeral_2_eq_2

text \<open>A payload key that names an inherited property: the call throws after it has
  marked the slot active, with the later entry \<open>posX\<close> not written and no record
  registered.\<close>

lemma inherited_key_throws:
  "snd (triggerCall inheritedKeyOptions payloadPool) = Some TypeError
   \<and> activeArray (trigger inheritedKeyOptions payloadPool) = [Fin 1, Fin 0]
   \<and> dataArray (trigger inheritedKeyOptions payloadPool) ''posX'' = [Fin 0, Fin 0]
   \<and> animations (trigger inheritedKeyOptions payloadPool) 0 = None"
  by (simp add: inheritedKeyOptions_def payloadPool_def objectPrototypeKeys_def dataArray_def
      arrayOf_def pool_eval)

text \<open>
  C10. The clean-up of a manual animation and the completion of a spring reset the
  slot's active flag and value in the main buffer and touch no data buffer, and neither
  does a frame. So what the trigger that took slot \<open>idx\<close> left at \<open>idx\<close> of a data
  buffer is still there after any run in which no trigger takes \<open>idx\<close> again, whether
  or not the slot is freed in it. When the trigger returned, that is the payload entry
  for the buffer; a later trigger that takes \<open>idx\<close> again with an entry for the buffer
  overwrites it (the second conjunct, for that trigger). The data buffers are objects
  of their own, as \<open>useStorageBuffers\<close> makes them.
\<close>

theorem payload_persists_after_free:
  assumes "findIndex (\<lambda>v. v = Fin 0) (activeArray s) = Some idx"
    and "idx \<notin> set (allocations evs (trigger options s))"
  shows "dataArray (run evs (trigger options s)) key ! idx =
           dataArray (trigger options s) key ! idx
       \<and> (triggerReturns options s \<and> opt_data options = Some data
            \<and> distinct (map fst data) \<and> (key, v) \<in> set data
            \<and> idx < length (dataArray s key) \<longrightarrow>
             dataArray (trigger options s) key ! idx = v
             \<and> dataArray (run evs (trigger options s)) key ! idx = v)
       \<and> dataBuffers (cleanUp i s') = dataBuffers s'
       \<and> dataBuffers (onComplete i s') = dataBuffers s'
       \<and> dataBuffers (frame now s') = dataBuffers s'
       \<and> activeArray (cleanUp i s') = (activeArray s')[i := Fin 0]
       \<and> valuesArray (cleanUp i s') = (valuesArray s')[i := Fin 0]
       \<and> activeArray (onComplete i s') = (activeArray s')[i := Fin 0]
       \<and> valuesArray (onComplete i s') = (valuesArray s')[i := Fin 0]"
proof -
  have kept: "dataArray (run evs (trigger options s)) key ! idx =
      dataArray (trigger options s) key ! idx"
    using assms(2) by (rule run_dataArray_other)
  have stored: "dataArray (trigger options s) key ! idx = v"
    if returns: "triggerReturns options s" and data: "opt_data options = Some data"
      and keys: "distinct (map fst data)" and mem: "(key, v) \<in> set data"
      and len: "idx < length (dataArray s key)"
  proof -
    from len obtain dbs where dbs: "dataBuffers s = Some dbs" "idx < length (arrayOf dbs key)"
      by (auto simp: dataArray_def split: option.splits)
    have "snd (storeData idx data dbs) = None"
      using returns trigger_free(5) [OF assms(1), of options] dbs(1) data
      by (simp add: orDefault_def)
    with keys mem dbs(2) have "arrayOf (fst (storeData idx data dbs)) key ! idx = v"
      by (rule storeData_written)
    then show ?thesis
      using assms(1) dbs(1) data by (simp add: trigger_dataArray orDefault_def)
  qed
  from kept stored show ?thesis
    by (simp add: frame_facts)
qed

theorem payload_persists_after_free_witness:
  "dataArray (trigger payloadOptions payloadPool) ''posX'' ! 0 = Fin 0.25
   \<and> activeArray (run [Frame (Fin 1), Trigger springOptions, Frame (Fin 3)]
         (trigger payloadOptions payloadPool)) = [Fin 0, Fin 1]
   \<and> valuesArray (run [Frame (Fin 1), Trigger springOptions, Frame (Fin 3)]
         (trigger payloadOptions payloadPool)) = [Fin 0, Fin 0]
   \<and> dataArray (run [Frame (Fin 1), Trigger springOptions, Frame (Fin 3)]
         (trigger payloadOptions payloadPool)) ''posX'' ! 0 = Fin 0.25"
proof -
  let ?evs = "[Frame (Fin 1), Trigger springOptions, Frame (Fin 3)]"
  have free: "findIndex (\<lambda>v. v = Fin 0) (activeArray payloadPool) = Some 0"
    by (simp add: payloadPool_def pool_eval)
  have len: "0 < length (dataArray payloadPool ''posX'')"
    by (simp add: payloadPool_def dataArray_def arrayOf_def pool_eval)
  have returns: "triggerReturns payloadOptions payloadPool"
    by (simp add: payloadPool_def payloadOptions_def pool_eval)
  have alloc: "allocations ?evs (trigger payloadOptions payloadPool) = [1]"
    by (simp add: payloadPool_def payloadOptions_def springOptions_def allocated_def pool_eval)
  have act: "activeArray (run ?evs (trigger payloadOptions payloadPool)) = [Fin 0, Fin 1]"
    by (simp add: payloadPool_def payloadOptions_def springOptions_def pool_eval)
  have val: "valuesArray (run ?evs (trigger payloadOptions payloadPool)) = [Fin 0, Fin 0]"
    by (simp add: payloadPool_def payloadOptions_def springOptions_def pool_eval)
  have opt: "opt_data payloadOptions = Some [(''posX'', Fin 0.25)]"
    by (simp add: payloadOptions_def)
  have keys: "distinct (map fst [(''posX'', Fin 0.25)])"
    and mem: "(''posX'', Fin 0.25) \<in> set [(''posX'', Fin 0.25)]"
    by simp_all
  have other: "0 \<notin> set (allocations ?evs (trigger payloadOptions payloadPool))"
    by (simp only: alloc) simp
  from payload_persists_after_free [OF free other, of "''posX''" "[(''posX'', Fin 0.25)]"
      "Fin 0.25"] returns opt keys mem len act val
  show ?thesis
    by blast
qed



section \<open>Single precision\<close>

lemma roundTiesToEven_le:
  assumes "y \<le> of_int N"
  shows "roundTiesToEven y \<le> N"
proof -
  have fl: "\<lfloor>y\<rfloor> \<le> N"
    using assms by (simp add: floor_le_iff)
  show ?thesis
  proof (cases "\<lfloor>y\<rfloor> = N")
    case True
    then have "y - of_int \<lfloor>y\<rfloor> \<le> 0"
      using assms by simp
    then have "y - of_int \<lfloor>y\<rfloor> < 1 / 2"
      by simp
    then show ?thesis
      using fl by (simp add: roundTiesToEven_def Let_def)
  next
    case False
    with fl have "\<lfloor>y\<rfloor> + 1 \<le> N"
      by simp
    then show ?thesis
      using fl by (simp add: roundTiesToEven_def Let_def)
  qed
qed

lemma roundTiesToEven_ge:
  assumes "of_int N \<le> y"
  shows "N \<le> roundTiesToEven y"
proof -
  have "N \<le> \<lfloor>y\<rfloor>"
    using assms by (simp add: le_floor_iff)
  then show ?thesis
    by (simp add: roundTiesToEven_def Let_def)
qed

lemma roundTiesToEven_abs_le:
  assumes "\<bar>y\<bar> \<le> of_int N"
  shows "\<bar>roundTiesToEven y\<bar> \<le> N"
proof -
  have "y \<le> of_int N" and "of_int (- N) \<le> y"
    using assms by simp_all
  then have "roundTiesToEven y \<le> N" and "- N \<le> roundTiesToEven y"
    by (simp_all only: roundTiesToEven_le roundTiesToEven_ge)
  then show ?thesis
    by simp
qed

lemma small_normal: "(1::real) / 2 ^ 126 = 2 powr (- 126)"
  by (simp add: powr_minus_divide)

lemma exponent32_mono:
  assumes "\<bar>x\<bar> \<le> \<bar>c\<bar>"
  shows "exponent32 x \<le> exponent32 c"
proof (cases "\<bar>c\<bar> < 1 / 2 ^ 126")
  case True
  with assms show ?thesis
    by (simp add: exponent32_def)
next
  case big: False
  then have cpos: "0 < \<bar>c\<bar>"
    by (smt (verit) divide_pos_pos zero_less_power zero_less_numeral)
  from big have "2 powr (- 126) \<le> \<bar>c\<bar>"
    by (simp only: small_normal not_less)
  then have "- 126 \<le> log 2 \<bar>c\<bar>"
    using cpos by (simp add: le_log_iff)
  then have low: "- 126 \<le> \<lfloor>log 2 \<bar>c\<bar>\<rfloor>"
    by (simp add: le_floor_iff)
  show ?thesis
  proof (cases "\<bar>x\<bar> < 1 / 2 ^ 126")
    case True
    then have "exponent32 x = - 149"
      by (simp add: exponent32_def)
    moreover have "exponent32 c = \<lfloor>log 2 \<bar>c\<bar>\<rfloor> - 23"
      using big by (simp add: exponent32_def)
    ultimately show ?thesis
      using low by linarith
  next
    case False
    then have xpos: "0 < \<bar>x\<bar>"
      by (smt (verit) divide_pos_pos zero_less_power zero_less_numeral)
    then have "log 2 \<bar>x\<bar> \<le> log 2 \<bar>c\<bar>"
      using assms cpos by simp
    then have "\<lfloor>log 2 \<bar>x\<bar>\<rfloor> \<le> \<lfloor>log 2 \<bar>c\<bar>\<rfloor>"
      by (rule floor_mono)
    moreover have "exponent32 x = \<lfloor>log 2 \<bar>x\<bar>\<rfloor> - 23"
      using False by (simp add: exponent32_def)
    moreover have "exponent32 c = \<lfloor>log 2 \<bar>c\<bar>\<rfloor> - 23"
      using big by (simp add: exponent32_def)
    ultimately show ?thesis
      by linarith
  qed
qed

lemma ulp32_pos [simp]: "0 < ulp32 x"
  by (simp add: ulp32_def)

lemma ulp32_abs [simp]: "\<bar>ulp32 x\<bar> = ulp32 x"
  by (simp add: abs_of_pos)

text \<open>A number that the conversion leaves as it is does not grow when a number of at
  most its magnitude is converted.\<close>

lemma toFloat32_no_growth:
  assumes fixed: "toFloat32 (Fin c) = Fin c" and le: "\<bar>x\<bar> \<le> \<bar>c\<bar>"
  shows "\<exists>y. toFloat32 (Fin x) = Fin y \<and> \<bar>y\<bar> \<le> \<bar>c\<bar>"
proof -
  define n where "n = roundTiesToEven (c / ulp32 c)"
  have small: "\<bar>c\<bar> < 2 ^ 128" and c: "c = ulp32 c * of_int n"
    using fixed by (simp_all add: Let_def n_def split: if_splits)
  define j where "j = nat (exponent32 c - exponent32 x)"
  have j: "exponent32 c = exponent32 x + int j"
    using exponent32_mono [OF le] by (simp add: j_def)
  have "ulp32 c = ulp32 x * 2 ^ j"
    by (simp add: ulp32_def j power_int_add)
  with c have "c = ulp32 x * of_int (n * 2 ^ j)"
    by simp
  then have absc: "\<bar>c\<bar> = ulp32 x * of_int (\<bar>n\<bar> * 2 ^ j)"
    by (simp add: abs_mult)
  have "ulp32 x \<noteq> 0"
    by (simp add: ulp32_def)
  then have "(ulp32 x * of_int (\<bar>n\<bar> * 2 ^ j)) / ulp32 x = of_int (\<bar>n\<bar> * 2 ^ j)"
    by (rule nonzero_mult_div_cancel_left)
  then have cN: "\<bar>c\<bar> / ulp32 x = of_int (\<bar>n\<bar> * 2 ^ j)"
    by (simp only: absc)
  have "0 \<le> ulp32 x"
    by (simp add: ulp32_def)
  with le have "\<bar>x\<bar> / ulp32 x \<le> \<bar>c\<bar> / ulp32 x"
    by (rule divide_right_mono)
  moreover have "\<bar>x / ulp32 x\<bar> = \<bar>x\<bar> / ulp32 x"
    by (simp only: abs_divide ulp32_abs)
  ultimately have "\<bar>x / ulp32 x\<bar> \<le> of_int (\<bar>n\<bar> * 2 ^ j)"
    by (simp only: cN)
  then have "\<bar>roundTiesToEven (x / ulp32 x)\<bar> \<le> \<bar>n\<bar> * 2 ^ j"
    by (rule roundTiesToEven_abs_le)
  then have "real_of_int \<bar>roundTiesToEven (x / ulp32 x)\<bar> \<le> of_int (\<bar>n\<bar> * 2 ^ j)"
    by (simp only: of_int_le_iff)
  then have "ulp32 x * real_of_int \<bar>roundTiesToEven (x / ulp32 x)\<bar>
      \<le> ulp32 x * of_int (\<bar>n\<bar> * 2 ^ j)"
    by (simp add: mult_left_mono)
  then have bound: "\<bar>ulp32 x * of_int (roundTiesToEven (x / ulp32 x))\<bar> \<le> \<bar>c\<bar>"
    by (simp only: absc abs_mult ulp32_abs of_int_abs)
  with small have "toFloat32 (Fin x) = Fin (ulp32 x * of_int (roundTiesToEven (x / ulp32 x)))"
    by (simp add: Let_def)
  with bound show ?thesis
    by blast
qed


text \<open>The exponent of a number in a given binade.\<close>

lemma exponent32_binade:
  assumes "2 powi e \<le> \<bar>x\<bar>" "\<bar>x\<bar> < 2 powi (e + 1)" "- 126 \<le> e"
  shows "exponent32 x = e - 23"
proof -
  have pos: "0 < \<bar>x\<bar>"
    using assms(1) by (smt (verit) zero_less_power_int)
  have "(2::real) powi (- 126) \<le> 2 powi e"
    using assms(3) by (intro power_int_increasing) simp_all
  with assms(1) have "\<not> \<bar>x\<bar> < 1 / 2 ^ 126"
    by (simp add: power_int_minus inverse_eq_divide)
  moreover have "\<lfloor>log 2 \<bar>x\<bar>\<rfloor> = e"
  proof (rule floor_unique)
    have "2 powr real_of_int e \<le> \<bar>x\<bar>"
      using assms(1) by (simp add: powr_real_of_int')
    then show "of_int e \<le> log 2 \<bar>x\<bar>"
      using pos by (simp add: le_log_iff)
    have "(2::real) powr real_of_int (e + 1) = 2 powi (e + 1)"
      by (rule powr_real_of_int') simp_all
    with assms(2) have "\<bar>x\<bar> < 2 powr real_of_int (e + 1)"
      by (simp only:)
    then have "log 2 \<bar>x\<bar> < real_of_int (e + 1)"
      using pos by (simp add: log_less_iff)
    then show "log 2 \<bar>x\<bar> < of_int e + 1"
      by simp
  qed
  ultimately show ?thesis
    by (simp add: exponent32_def)
qed

lemma toFloat32_examples:
  "toFloat32 (Fin 0) = Fin 0"
  "toFloat32 (Fin 3) = Fin 3"
  "toFloat32 (Fin (- 1.5)) = Fin (- 1.5)"
  "toFloat32 (Fin 6) = Fin 6"
  "toFloat32 (Fin 4) = Fin 4"
  "toFloat32 (Fin (1 / 2 ^ 148)) = Fin (1 / 2 ^ 148)"
  "toFloat32 (Fin (3 / 2 ^ 150)) = Fin (1 / 2 ^ 148)"
proof -
  show "toFloat32 (Fin 0) = Fin 0"
    by (simp add: ulp32_def exponent32_def roundTiesToEven_def Let_def)
  have "exponent32 3 = 1 - 23"
    by (rule exponent32_binade) simp_all
  then show "toFloat32 (Fin 3) = Fin 3"
    by (simp add: ulp32_def roundTiesToEven_def Let_def power_int_minus)
  have "exponent32 (- 1.5) = 0 - 23"
    by (rule exponent32_binade) simp_all
  then show "toFloat32 (Fin (- 1.5)) = Fin (- 1.5)"
    by (simp add: ulp32_def roundTiesToEven_def Let_def power_int_minus)
  have "exponent32 6 = 2 - 23"
    by (rule exponent32_binade) simp_all
  then show "toFloat32 (Fin 6) = Fin 6"
    by (simp add: ulp32_def roundTiesToEven_def Let_def power_int_minus)
  have "exponent32 4 = 2 - 23"
    by (rule exponent32_binade) simp_all
  then show "toFloat32 (Fin 4) = Fin 4"
    by (simp add: ulp32_def roundTiesToEven_def Let_def power_int_minus)
  show "toFloat32 (Fin (1 / 2 ^ 148)) = Fin (1 / 2 ^ 148)"
    by (simp add: ulp32_def exponent32_def roundTiesToEven_def Let_def)
  show "toFloat32 (Fin (3 / 2 ^ 150)) = Fin (1 / 2 ^ 148)"
    by (simp add: ulp32_def exponent32_def roundTiesToEven_def Let_def)
qed

section \<open>The trail: decay\<close>

lemma decayCell_length [simp]: "length (decayCell d i data) = length data"
  by (simp add: decayCell_def Let_def)

lemma decayCell_nth:
  "k < length data \<Longrightarrow>
   decayCell d i data ! k =
     (if k = i \<or> k = i + 1 \<or> k = i + 2 then toFloat32 (data ! k * d) else data ! k)"
  by (simp add: decayCell_def Let_def nth_list_update)

declare decayLoop.simps [simp del]

lemma decayLoop_length [simp]: "length (decayLoop d i data) = length data"
proof (induction d i data rule: decayLoop.induct)
  case (1 d i data)
  show ?case
  proof (cases "i < length data")
    case True
    then have "decayLoop d i data = decayLoop d (i + 4) (decayCell d i data)"
      by (subst decayLoop.simps) simp
    with "1.IH" [OF True] show ?thesis by simp
  next
    case False
    then have "decayLoop d i data = data"
      by (subst decayLoop.simps) simp
    then show ?thesis by simp
  qed
qed

lemma index_cases:
  "(k::nat) < i \<or> k = i \<or> k = i + 1 \<or> k = i + 2 \<or> k = i + 3 \<or> i + 4 \<le> k"
  by presburger

lemma mod4_shift:
  assumes "i + 4 \<le> k"
  shows "(k - (i + 4)) mod 4 = (k - i) mod (4::nat)"
proof -
  from assms have "k - i = (k - (i + 4)) + 4"
    by simp
  then have "(k - i) mod 4 = ((k - (i + 4)) + 4) mod 4"
    by (rule arg_cong)
  then show ?thesis
    by (simp only: mod_add_self2)
qed

lemma decayCell_then_rest:
  assumes "k < length data"
  shows "(if i + 4 \<le> k \<and> (k - (i + 4)) mod 4 < 3
          then toFloat32 (decayCell d i data ! k * d) else decayCell d i data ! k) =
         (if i \<le> k \<and> (k - i) mod 4 < 3 then toFloat32 (data ! k * d) else data ! k)"
proof -
  from index_cases [of k i] show ?thesis
  proof (elim disjE)
    assume "k < i"
    with assms show ?thesis by (simp add: decayCell_nth)
  next
    assume "k = i"
    with assms show ?thesis by (simp add: decayCell_nth)
  next
    assume "k = i + 1"
    with assms show ?thesis by (simp add: decayCell_nth)
  next
    assume "k = i + 2"
    with assms show ?thesis by (simp add: decayCell_nth)
  next
    assume "k = i + 3"
    with assms show ?thesis by (simp add: decayCell_nth)
  next
    assume far: "i + 4 \<le> k"
    then have "(k - (i + 4)) mod 4 = (k - i) mod 4"
      by (rule mod4_shift)
    with far assms show ?thesis
      by (simp add: decayCell_nth)
  qed
qed

lemma decayLoop_nth:
  "k < length data \<Longrightarrow>
   decayLoop d i data ! k =
     (if i \<le> k \<and> (k - i) mod 4 < 3 then toFloat32 (data ! k * d) else data ! k)"
proof (induction d i data rule: decayLoop.induct)
  case (1 d i data)
  show ?case
  proof (cases "i < length data")
    case False
    then have "decayLoop d i data = data"
      by (subst decayLoop.simps) simp
    with False "1.prems" show ?thesis by simp
  next
    case True
    have step: "decayLoop d i data = decayLoop d (i + 4) (decayCell d i data)"
      using True by (subst decayLoop.simps) simp
    have "decayLoop d (i + 4) (decayCell d i data) ! k =
        (if i + 4 \<le> k \<and> (k - (i + 4)) mod 4 < 3
         then toFloat32 (decayCell d i data ! k * d) else decayCell d i data ! k)"
      using "1.IH" [OF True] "1.prems" by simp
    also have "\<dots> = (if i \<le> k \<and> (k - i) mod 4 < 3 then toFloat32 (data ! k * d) else data ! k)"
      using "1.prems" by (rule decayCell_then_rest)
    finally show ?thesis
      by (simp only: step)
  qed
qed

lemma decayLoop_from_start:
  "k < length data \<Longrightarrow>
   decayLoop d 0 data ! k = (if k mod 4 < 3 then toFloat32 (data ! k * d) else data ! k)"
  by (simp add: decayLoop_nth)

lemma shrink:
  fixes c d :: real
  assumes "0 \<le> d" "d < 1" "c \<noteq> 0"
  shows "\<bar>c * d\<bar> < \<bar>c\<bar>"
proof -
  have "\<bar>c * d\<bar> = \<bar>c\<bar> * d"
    using assms(1) by (simp add: abs_mult)
  also have "\<dots> < \<bar>c\<bar> * 1"
    using assms(2,3) by (intro mult_strict_left_mono) simp_all
  finally show ?thesis by simp
qed

lemma below_four: "(m::nat) < 4 \<Longrightarrow> m < 3 \<or> m = 3"
  by auto

text \<open>
  C4, as stated, fails. The decay loop stores each product into the \<open>Float32Array\<close> of
  the texture, and the store rounds to single precision. A channel that has decayed to
  2 to the power -148 has the product three quarters of that, which lies half way
  between two single-precision numbers and rounds back to 2 to the power -148: with the
  default decay factor 0.75 an idle frame leaves the channel as it was, not multiplied
  by the factor and not smaller.
\<close>

theorem idle_frame_stuck_counterexample:
  "gridData stuckTrail ! 0 = Fin (1 / 2 ^ 148)
   \<and> decay defaultOptions = Fin 0.75
   \<and> rawPointerRef stuckTrail = None
   \<and> gridData (trailFrame defaultOptions stuckTrail) ! 0 = Fin (1 / 2 ^ 148)
   \<and> gridData stuckTrail ! 0 * decay defaultOptions = Fin (3 / 2 ^ 150)
   \<and> gridData (trailFrame defaultOptions stuckTrail) ! 0 \<noteq>
       gridData stuckTrail ! 0 * decay defaultOptions"
proof -
  have data: "gridData stuckTrail =
      [Fin (1 / 2 ^ 148), Fin 0, Fin 0, Fin 0] @ replicate 12 (Fin 0)"
    by (simp add: gridData_def stuckTrail_def)
  have factor: "decay defaultOptions = Fin 0.75"
    by (simp add: defaultOptions_def)
  have first: "gridData stuckTrail ! 0 = Fin (1 / 2 ^ 148)"
    by (simp add: data)
  have product: "gridData stuckTrail ! 0 * Fin 0.75 = Fin (3 / 2 ^ 150)"
    by (simp add: data)
  have idle: "rawPointerRef stuckTrail = None"
    by (simp add: stuckTrail_def)
  have "gridData (trailFrame defaultOptions stuckTrail) =
      decayLoop (Fin 0.75) 0 (gridData stuckTrail)"
    by (simp add: trailFrame_def gridData_def stuckTrail_def defaultOptions_def)
  moreover have "decayLoop (Fin 0.75) 0 (gridData stuckTrail) ! 0 =
      toFloat32 (gridData stuckTrail ! 0 * Fin 0.75)"
    by (simp add: decayLoop_from_start data del: toFloat32.simps)
  ultimately have after: "gridData (trailFrame defaultOptions stuckTrail) ! 0 =
      Fin (1 / 2 ^ 148)"
    by (simp only: product toFloat32_examples)
  have exact: "gridData stuckTrail ! 0 * decay defaultOptions = Fin (3 / 2 ^ 150)"
    by (simp only: factor product)
  have "Fin (1 / 2 ^ 148) \<noteq> Fin (3 / 2 ^ 150)"
    by simp
  then have differ: "gridData (trailFrame defaultOptions stuckTrail) ! 0 \<noteq>
      gridData stuckTrail ! 0 * decay defaultOptions"
    by (simp only: after exact not_False_eq_True)
  from first factor idle after exact differ show ?thesis
    by (intro conjI)
qed

text \<open>
  C4, amended. On a frame with no pointer sample (and a texture to work on) the frame
  changes nothing but the texture: its data keeps its length, every entry of the first
  three channels of a cell (index \<open>k\<close> with \<open>k mod 4 < 3\<close>) becomes its old value
  times the decay factor, rounded to single precision, and every fourth entry is
  unchanged. For a decay factor \<open>d\<close> in \<open>[0, 1)\<close> and a channel that holds a number
  \<open>c\<close>, the product \<open>c d\<close> is of strictly smaller magnitude than \<open>c\<close> when \<open>c\<close> is not
  zero; the channel after the frame is zero when \<open>c\<close> is zero, and when \<open>c\<close> is a
  single-precision number it is a number of magnitude at most that of \<open>c\<close>.
\<close>

theorem idle_frame_decays:
  assumes "dataTextureRef st = Some dt" "rawPointerRef st = None"
    and "k < length (gridData st)"
  shows "length (gridData (trailFrame options st)) = length (gridData st)
       \<and> trailFrame options st =
           st\<lparr>dataTextureRef :=
                Some \<lparr>image_data = gridData (trailFrame options st),
                      texture_needsUpdate = True\<rparr>\<rparr>
       \<and> (k mod 4 < 3 \<longrightarrow>
             gridData (trailFrame options st) ! k =
               toFloat32 (gridData st ! k * decay options))
       \<and> (k mod 4 = 3 \<longrightarrow> gridData (trailFrame options st) ! k = gridData st ! k)
       \<and> (k mod 4 < 3 \<and> gridData st ! k = Fin c \<and> decay options = Fin d
            \<and> 0 \<le> d \<and> d < 1 \<longrightarrow>
             gridData st ! k * decay options = Fin (c * d)
             \<and> (c \<noteq> 0 \<longrightarrow> \<bar>c * d\<bar> < \<bar>c\<bar>)
             \<and> (c = 0 \<longrightarrow> gridData (trailFrame options st) ! k = Fin 0)
             \<and> (toFloat32 (Fin c) = Fin c \<longrightarrow>
                  (\<exists>y. gridData (trailFrame options st) ! k = Fin y \<and> \<bar>y\<bar> \<le> \<bar>c\<bar>)))"
proof -
  let ?data' = "decayLoop (decay options) 0 (image_data dt)"
  have frame: "trailFrame options st =
      st\<lparr>dataTextureRef := Some \<lparr>image_data = ?data', texture_needsUpdate = True\<rparr>\<rparr>"
    using assms(1,2) by (simp add: trailFrame_def)
  have before: "gridData st = image_data dt"
    using assms(1) by (simp add: gridData_def)
  have after: "gridData (trailFrame options st) = ?data'"
    by (simp add: frame gridData_def)
  have k: "k < length (image_data dt)"
    using assms(3) by (simp add: before)
  have cell: "?data' ! k =
      (if k mod 4 < 3 then toFloat32 (image_data dt ! k * decay options)
       else image_data dt ! k)"
    using k by (rule decayLoop_from_start)
  have residue: "k mod 4 < 3 \<or> k mod 4 = 3"
    by (rule below_four) simp
  have size: "length (gridData (trailFrame options st)) = length (gridData st)"
    by (simp add: after before)
  have rest: "trailFrame options st =
      st\<lparr>dataTextureRef :=
           Some \<lparr>image_data = gridData (trailFrame options st),
                 texture_needsUpdate = True\<rparr>\<rparr>"
    by (simp only: after) (rule frame)
  have rgb: "gridData (trailFrame options st) ! k =
      toFloat32 (gridData st ! k * decay options)"
    if "k mod 4 < 3"
    using that cell by (simp add: after before)
  have alpha: "gridData (trailFrame options st) ! k = gridData st ! k" if "k mod 4 = 3"
    using that cell by (simp add: after before)
  have finite: "gridData st ! k * decay options = Fin (c * d)
             \<and> (c \<noteq> 0 \<longrightarrow> \<bar>c * d\<bar> < \<bar>c\<bar>)
             \<and> (c = 0 \<longrightarrow> gridData (trailFrame options st) ! k = Fin 0)
             \<and> (toFloat32 (Fin c) = Fin c \<longrightarrow>
                  (\<exists>y. gridData (trailFrame options st) ! k = Fin y \<and> \<bar>y\<bar> \<le> \<bar>c\<bar>))"
    if "k mod 4 < 3" "gridData st ! k = Fin c" "decay options = Fin d" "0 \<le> d" "d < 1"
  proof -
    have new: "gridData (trailFrame options st) ! k = toFloat32 (Fin (c * d))"
      using rgb [OF that(1)] that(2,3) by simp
    have le: "\<bar>c * d\<bar> \<le> \<bar>c\<bar>"
      using that(4,5) shrink [of d c] by (cases "c = 0") simp_all
    have "\<exists>y. toFloat32 (Fin (c * d)) = Fin y \<and> \<bar>y\<bar> \<le> \<bar>c\<bar>"
      if "toFloat32 (Fin c) = Fin c"
      using that le by (rule toFloat32_no_growth)
    moreover have "toFloat32 (Fin (c * d)) = Fin 0" if "c = 0"
      using that by (simp only: mult_zero_left toFloat32_examples)
    moreover have "gridData st ! k * decay options = Fin (c * d)"
      using that(2,3) by simp
    moreover have "\<bar>c * d\<bar> < \<bar>c\<bar>" if "c \<noteq> 0"
      using that \<open>0 \<le> d\<close> \<open>d < 1\<close> by (simp add: shrink)
    ultimately show ?thesis
      by (simp only: new) blast
  qed
  from size rest rgb alpha finite show ?thesis
    by blast
qed

theorem idle_frame_decays_witness:
  "gridData (trailFrame defaultOptions idleTrail) ! 0 = Fin 3
   \<and> gridData (trailFrame defaultOptions idleTrail) ! 1 = Fin (- 1.5)
   \<and> gridData (trailFrame defaultOptions idleTrail) ! 2 = Fin 6
   \<and> gridData (trailFrame defaultOptions idleTrail) ! 3 = Fin 0
   \<and> gridData (trailFrame defaultOptions idleTrail) ! 4 = Fin 0
   \<and> length (gridData (trailFrame defaultOptions idleTrail)) = 16"
proof -
  have tex: "dataTextureRef idleTrail =
      Some \<lparr>image_data = [Fin 4, Fin (- 2), Fin 8, Fin 0] @ replicate 12 (Fin 0),
            texture_needsUpdate = True\<rparr>"
    and raw: "rawPointerRef idleTrail = None"
    by (simp_all add: idleTrail_def)
  have data: "gridData idleTrail = [Fin 4, Fin (- 2), Fin 8, Fin 0] @ replicate 12 (Fin 0)"
    by (simp add: gridData_def idleTrail_def)
  have len: "0 < length (gridData idleTrail)" "1 < length (gridData idleTrail)"
    "2 < length (gridData idleTrail)" "3 < length (gridData idleTrail)"
    "4 < length (gridData idleTrail)"
    by (simp_all add: data)
  have cells: "gridData idleTrail ! 0 = Fin 4" "gridData idleTrail ! 1 = Fin (- 2)"
    "gridData idleTrail ! 2 = Fin 8" "gridData idleTrail ! 3 = Fin 0"
    "gridData idleTrail ! 4 = Fin 0"
    by (simp_all add: data nth_append)
  have factor: "decay defaultOptions = Fin 0.75"
    by (simp add: defaultOptions_def)
  have products: "Fin 4 * Fin 0.75 = Fin 3" "Fin (- 2) * Fin 0.75 = Fin (- 1.5)"
    "Fin 8 * Fin 0.75 = Fin 6"
    by simp_all
  have "gridData (trailFrame defaultOptions idleTrail) ! 0 =
      toFloat32 (gridData idleTrail ! 0 * decay defaultOptions)"
    using idle_frame_decays [OF tex raw len(1), of defaultOptions 4 "0.75"]
    by (simp del: toFloat32.simps)
  then have red: "gridData (trailFrame defaultOptions idleTrail) ! 0 = Fin 3"
    by (simp only: cells factor products toFloat32_examples)
  have "gridData (trailFrame defaultOptions idleTrail) ! 1 =
      toFloat32 (gridData idleTrail ! 1 * decay defaultOptions)"
    using idle_frame_decays [OF tex raw len(2), of defaultOptions "- 2" "0.75"]
    by (simp del: toFloat32.simps)
  then have green: "gridData (trailFrame defaultOptions idleTrail) ! 1 = Fin (- 1.5)"
    by (simp only: cells factor products toFloat32_examples)
  have "gridData (trailFrame defaultOptions idleTrail) ! 2 =
      toFloat32 (gridData idleTrail ! 2 * decay defaultOptions)"
    using idle_frame_decays [OF tex raw len(3), of defaultOptions 8 "0.75"]
    by (simp del: toFloat32.simps)
  then have blue: "gridData (trailFrame defaultOptions idleTrail) ! 2 = Fin 6"
    by (simp only: cells factor products toFloat32_examples)
  have "gridData (trailFrame defaultOptions idleTrail) ! 3 = gridData idleTrail ! 3"
    using idle_frame_decays [OF tex raw len(4), of defaultOptions 0 "0.75"]
    by (simp del: toFloat32.simps)
  then have alpha: "gridData (trailFrame defaultOptions idleTrail) ! 3 = Fin 0"
    by (simp only: cells)
  have "gridData (trailFrame defaultOptions idleTrail) ! 4 = Fin 0"
    using idle_frame_decays [OF tex raw len(5), of defaultOptions 0 "0.75"] cells(5)
    by (simp add: factor toFloat32_examples(1) del: toFloat32.simps)
  moreover have "length (gridData (trailFrame defaultOptions idleTrail)) = 16"
    using idle_frame_decays [OF tex raw len(1), of defaultOptions 4 "0.75"]
    by (simp add: data del: toFloat32.simps)
  ultimately show ?thesis
    using red green blue alpha by simp
qed


section \<open>The trail: pointer velocity\<close>

lemma Math_abs_less_Fin [simp]: "Math_abs (Fin a) < Fin b \<longleftrightarrow> \<bar>a\<bar> < b"
  by simp

text \<open>
  C5. On a frame with a pointer sample \<open>raw\<close> and previous position \<open>pointerRef\<close>
  (and a texture to work on) the velocity is the difference of the two, component by
  component, and it is this velocity, before any decay, that the deposit loop uses. The
  previous position becomes the sample. At the end of the frame the stored velocity is
  the difference times the decay factor, with each component whose absolute value is
  below 0.001 replaced by 0. The last conjunct reads the same for positions and a decay
  factor that are numbers.
\<close>

theorem frame_velocity:
  assumes "dataTextureRef st = Some dt" "rawPointerRef st = Some raw"
  shows "frameVelocity raw (pointerRef st) =
           \<lparr>px = px raw - px (pointerRef st), py = py raw - py (pointerRef st)\<rparr>
       \<and> gridData (trailFrame options st) =
           (let size = Fin (real (grid options));
                mouseRadius = size * radius options;
                cellX = px raw * Fin 0.5 * size - mouseRadius * Fin 0.5;
                cellY = (Fin 2 - py raw) * Fin 0.5 * size + mouseRadius * Fin 0.5
            in depositLoop options (frameVelocity raw (pointerRef st)) cellX cellY mouseRadius
                 (decayLoop (decay options) 0 (gridData st)))
       \<and> pointerRef (trailFrame options st) = raw
       \<and> pointerVelocityRef (trailFrame options st) =
           settleVelocity (decay options) (frameVelocity raw (pointerRef st))
       \<and> px (pointerVelocityRef (trailFrame options st)) =
           (let v = (px raw - px (pointerRef st)) * decay options
            in if Math_abs v < Fin 0.001 then Fin 0 else v)
       \<and> py (pointerVelocityRef (trailFrame options st)) =
           (let v = (py raw - py (pointerRef st)) * decay options
            in if Math_abs v < Fin 0.001 then Fin 0 else v)
       \<and> (raw = \<lparr>px = Fin x1, py = Fin y1\<rparr> \<and> pointerRef st = \<lparr>px = Fin x0, py = Fin y0\<rparr>
            \<and> decay options = Fin d \<longrightarrow>
             frameVelocity raw (pointerRef st) = \<lparr>px = Fin (x1 - x0), py = Fin (y1 - y0)\<rparr>
             \<and> pointerVelocityRef (trailFrame options st) =
                 \<lparr>px = Fin (if \<bar>(x1 - x0) * d\<bar> < 0.001 then 0 else (x1 - x0) * d),
                  py = Fin (if \<bar>(y1 - y0) * d\<bar> < 0.001 then 0 else (y1 - y0) * d)\<rparr>)"
proof -
  have vel: "pointerVelocityRef (trailFrame options st) =
      settleVelocity (decay options) (frameVelocity raw (pointerRef st))"
    using assms by (simp add: trailFrame_def Let_def)
  have grid: "gridData (trailFrame options st) =
           (let size = Fin (real (grid options));
                mouseRadius = size * radius options;
                cellX = px raw * Fin 0.5 * size - mouseRadius * Fin 0.5;
                cellY = (Fin 2 - py raw) * Fin 0.5 * size + mouseRadius * Fin 0.5
            in depositLoop options (frameVelocity raw (pointerRef st)) cellX cellY mouseRadius
                 (decayLoop (decay options) 0 (gridData st)))"
    using assms by (simp add: trailFrame_def gridData_def Let_def)
  have prev: "pointerRef (trailFrame options st) = raw"
    using assms by (simp add: trailFrame_def Let_def)
  have comps: "px (settleVelocity (decay options) (frameVelocity raw (pointerRef st))) =
           (let v = (px raw - px (pointerRef st)) * decay options
            in if Math_abs v < Fin 0.001 then Fin 0 else v)"
    "py (settleVelocity (decay options) (frameVelocity raw (pointerRef st))) =
           (let v = (py raw - py (pointerRef st)) * decay options
            in if Math_abs v < Fin 0.001 then Fin 0 else v)"
    by (simp_all add: settleVelocity_def frameVelocity_def Let_def)
  have finite: "frameVelocity raw (pointerRef st) = \<lparr>px = Fin (x1 - x0), py = Fin (y1 - y0)\<rparr>
             \<and> settleVelocity (decay options) (frameVelocity raw (pointerRef st)) =
                 \<lparr>px = Fin (if \<bar>(x1 - x0) * d\<bar> < 0.001 then 0 else (x1 - x0) * d),
                  py = Fin (if \<bar>(y1 - y0) * d\<bar> < 0.001 then 0 else (y1 - y0) * d)\<rparr>"
    if "raw = \<lparr>px = Fin x1, py = Fin y1\<rparr>" "pointerRef st = \<lparr>px = Fin x0, py = Fin y0\<rparr>"
      "decay options = Fin d"
    using that by (simp add: settleVelocity_def frameVelocity_def Let_def)
  show ?thesis
    unfolding vel using grid prev comps finite
    by (simp add: frameVelocity_def)
qed

theorem frame_velocity_witness:
  "frameVelocity \<lparr>px = Fin 1.001, py = Fin 1.5\<rparr> (pointerRef movingTrail) =
     \<lparr>px = Fin 0.001, py = Fin 0.5\<rparr>
   \<and> pointerVelocityRef (trailFrame smallOptions movingTrail) = \<lparr>px = Fin 0, py = Fin 0.375\<rparr>
   \<and> pointerRef (trailFrame smallOptions movingTrail) = \<lparr>px = Fin 1.001, py = Fin 1.5\<rparr>"
proof -
  have tex: "dataTextureRef movingTrail =
      Some \<lparr>image_data = replicate 16 (Fin 0), texture_needsUpdate = True\<rparr>"
    and raw: "rawPointerRef movingTrail = Some \<lparr>px = Fin 1.001, py = Fin 1.5\<rparr>"
    by (simp_all add: movingTrail_def regenerateGrid_def smallOptions_def defaultOptions_def)
  have prev: "pointerRef movingTrail = \<lparr>px = Fin 1, py = Fin 1\<rparr>"
    by (simp add: movingTrail_def regenerateGrid_def)
  have d: "decay smallOptions = Fin 0.75"
    by (simp add: smallOptions_def defaultOptions_def)
  from frame_velocity [OF tex raw, of smallOptions "1.001" "1.5" 1 1 "0.75"] prev d
  show ?thesis
    by (simp add: settleVelocity_def Let_def)
qed



section \<open>The trail: the brush\<close>


declare Math_pow.simps [simp del]

lemma less_jsnum_never [simp]:
  "\<not> PInf < b" "\<not> a < NInf" "\<not> NaN < b" "\<not> a < NaN"
  by (cases b; simp) (cases a; simp)+



lemma depositCell_length [simp]:
  "length (depositCell options velocity cellX cellY mouseRadius x y data) = length data"
  by (simp add: depositCell_def Let_def split: prod.splits)













section \<open>The trail: pointer events\<close>

lemma storePointer_keeps [simp]:
  "dataTextureRef (storePointer event bounds st) = dataTextureRef st"
  "canvasBoundsRef (storePointer event bounds st) = canvasBoundsRef st"
  "pointerRef (storePointer event bounds st) = pointerRef st"
  "pointerVelocityRef (storePointer event bounds st) = pointerVelocityRef st"
  by (simp_all add: storePointer_def Let_def)

text \<open>
  C8. With cached bounds the handler stores the pointer position computed from them.
  Without cached bounds it recomputes them from the canvas element: if there is one, its
  rectangle is cached and used for the event; if there is none, the handler throws and
  leaves every ref as it was, so the event is not processed. The exception is thrown in
  that case only. In every case the texture data after the handler are the data before
  it.
\<close>

theorem pointer_move_bounds:
  "(canvasBoundsRef st = Some bounds \<longrightarrow>
      handlePointerMove domElement event st = (storePointer event bounds st, None))
   \<and> (canvasBoundsRef st = None \<and> domElement = Some rect \<longrightarrow>
      handlePointerMove domElement event st =
        (storePointer event rect (st\<lparr>canvasBoundsRef := Some rect\<rparr>), None))
   \<and> (canvasBoundsRef st = None \<and> domElement = None \<longrightarrow>
      handlePointerMove domElement event st = (st, Some CanvasBoundsNotFound))
   \<and> (snd (handlePointerMove domElement event st) = Some CanvasBoundsNotFound
        \<longleftrightarrow> canvasBoundsRef st = None \<and> domElement = None)
   \<and> dataTextureRef (fst (handlePointerMove domElement event st)) = dataTextureRef st"
  by (cases "canvasBoundsRef st"; cases domElement)
    (simp_all add: handlePointerMove_def updateCanvasBounds_def Let_def)

theorem pointer_move_bounds_witness:
  "handlePointerMove None centreEvent initialTrail = (initialTrail, Some CanvasBoundsNotFound)
   \<and> snd (handlePointerMove (Some canvasRect) centreEvent initialTrail) = None
   \<and> canvasBoundsRef (fst (handlePointerMove (Some canvasRect) centreEvent initialTrail)) =
       Some canvasRect
   \<and> rawPointerRef (fst (handlePointerMove (Some canvasRect) centreEvent initialTrail)) =
       Some \<lparr>px = Fin 1, py = Fin 1\<rparr>
   \<and> dataTextureRef (fst (handlePointerMove None centreEvent movingTrail)) =
       dataTextureRef movingTrail"
proof -
  have none: "canvasBoundsRef initialTrail = None"
    by (simp add: initialTrail_def)
  have stored: "rawPointerRef (storePointer centreEvent canvasRect
      (initialTrail\<lparr>canvasBoundsRef := Some canvasRect\<rparr>)) = Some \<lparr>px = Fin 1, py = Fin 1\<rparr>"
    by (simp add: storePointer_def centreEvent_def canvasRect_def clamp_def Let_def)
  from pointer_move_bounds [of initialTrail canvasRect None centreEvent canvasRect]
    pointer_move_bounds [of initialTrail canvasRect "Some canvasRect" centreEvent canvasRect]
    pointer_move_bounds [of movingTrail canvasRect None centreEvent canvasRect]
    none stored
  show ?thesis
    by simp
qed


end
